theory Spec2Isabelle
  imports Main "HOL-Library.Word" "HOL-Library.Sublist"
begin

section \<open>Embedding of \<open>src/index.ts\<close>: Kodi watch state to Jellyfin\<close>

text \<open>
  The program reads the watched files of a Kodi library (MySQL), finds for each of them
  a Jellyfin item by its path (SQLite, table \<open>TypedBaseItems\<close>) and inserts or updates
  the row of table \<open>UserDatas\<close> that carries the item's \<open>UserDataKey\<close>.
  The two databases are modelled as lists of rows in the store's result order, every
  exception as a value, the console and the statements issued against \<open>UserDatas\<close> as
  lists that grow.
\<close>

subsection \<open>Errors\<close>

text \<open>
  The places where a store is asked something: the source query, and per loop iteration
  (numbered from 0) the item query, the lookup of the existing row and the write.
\<close>

datatype store_op = FetchWatched | FindItem nat | FindExisting nat | WriteUserData nat

text \<open>
  \<open>InvalidIdentifierLength\<close> is the \<open>Error\<close> thrown by \<open>formatGUID\<close>;
  \<open>StoreUnavailable\<close> is the rejection of an awaited query.
\<close>

datatype error = InvalidIdentifierLength | StoreUnavailable store_op

subsection \<open>\<open>formatGUID\<close>\<close>

type_synonym u8 = "8 word"

text \<open>A \<open>Buffer\<close> is a list of bytes; \<open>toString("hex")\<close> writes two lowercase digits per byte.\<close>

definition hexdigit :: "nat \<Rightarrow> char" where
  "hexdigit n = ''0123456789abcdef'' ! (n mod 16)"

definition toString_hex :: "u8 list \<Rightarrow> string" where
  "toString_hex buf = concat (map (\<lambda>b. [hexdigit (unat b div 16), hexdigit (unat b mod 16)]) buf)"

text \<open>\<open>String.prototype.substring\<close>: the two indices are swapped when out of order and clamped by the length.\<close>

definition substring :: "string \<Rightarrow> nat \<Rightarrow> nat \<Rightarrow> string" where
  "substring s a b = take (max a b - min a b) (drop (min a b) s)"

fun join :: "string list \<Rightarrow> string \<Rightarrow> string" where
  "join [] sep = []"
| "join [x] sep = x"
| "join (x # y # ys) sep = x @ sep @ join (y # ys) sep"

definition formatGUID :: "u8 list \<Rightarrow> error + string" where
  "formatGUID guid =
     (let guidStr = toString_hex guid in
      if length guidStr \<noteq> 32 then Inl InvalidIdentifierLength
      else
        let uuid = [substring guidStr 0 8,
                    substring guidStr 8 12,
                    substring guidStr 12 16,
                    substring guidStr 16 20,
                    substring guidStr 20 32]
        in Inr (join uuid ''-''))"

text \<open>
  The reading direction is not part of the program. It is written here from the
  specification's words (the canonical 8-4-4-4-12 form, parsed back to bytes) so that the
  round trip can be stated.
\<close>

definition unhex :: "char \<Rightarrow> nat option" where
  "unhex c = map_of (zip ''0123456789abcdef'' [0..<16]) c"

fun from_hex :: "string \<Rightarrow> u8 list option" where
  "from_hex [] = Some []"
| "from_hex [c] = None"
| "from_hex (h # l # cs) =
     (case (unhex h, unhex l, from_hex cs) of
        (Some x, Some y, Some bs) \<Rightarrow> Some (of_nat (16 * x + y) # bs)
      | _ \<Rightarrow> None)"

definition groups :: "string \<Rightarrow> string list" where
  "groups s = [take 8 s, take 4 (drop 9 s), take 4 (drop 14 s), take 4 (drop 19 s), drop 24 s]"

definition canonical_form :: "string \<Rightarrow> bool" where
  "canonical_form s \<longleftrightarrow>
     length s = 36 \<and> s = join (groups s) ''-'' \<and>
     list_all (\<lambda>c. unhex c \<noteq> None) (concat (groups s))"

definition parseGUID :: "string \<Rightarrow> u8 list option" where
  "parseGUID s = (if canonical_form s then from_hex (concat (groups s)) else None)"

subsection \<open>The two stores\<close>

text \<open>
  A row of Kodi's table \<open>files\<close>, as selected by the program. The declared type of
  \<open>lastPlayed\<close> is \<open>string\<close>, but the column is nullable and the program guards the
  value with \<open>||\<close>, so the field is optional here.
\<close>

record kodi_entry =
  strFilename :: string
  lastPlayed :: "string option"
  playCount :: int

text \<open>A row of Jellyfin's table \<open>TypedBaseItems\<close>: the two selected columns and the path.\<close>

record jelly_item =
  guid :: "u8 list"
  UserDataKey :: string
  Path :: string

text \<open>
  The object \<open>data\<close> built for every matched entry, and a row of table \<open>UserDatas\<close>:
  the columns of \<open>data\<close>, the key, and whatever other columns the table has.
\<close>

record data =
  userId :: int
  isFavorite :: int
  played :: int
  playbackPositionTicks :: int
  playCount :: int
  lastPlayedDate :: string

record 'x user_data = data +
  key :: string
  others :: 'x

text \<open>The lines the program prints, and the statements it issues against \<open>UserDatas\<close>.\<close>

datatype console_line =
  Connecting | Found nat | WatchUpdated string | WatchInserted string | SyncComplete | ErrorLine error

datatype statement = Insert string data | Update string data

fun statement_key :: "statement \<Rightarrow> string" where
  "statement_key (Insert k d) = k"
| "statement_key (Update k d) = k"

fun statement_data :: "statement \<Rightarrow> data" where
  "statement_data (Insert k d) = d"
| "statement_data (Update k d) = d"

fun is_update :: "statement \<Rightarrow> bool" where
  "is_update (Insert k d) = False"
| "is_update (Update k d) = True"

text \<open>
  Everything the program touches. \<open>column_defaults\<close> is what the store puts into the
  columns an insert does not name; \<open>case_sensitive_like\<close> is the store's setting for
  \<open>LIKE\<close> (SQLite folds ASCII letters unless it is set).
\<close>

record 'x world =
  files :: "kodi_entry list"
  TypedBaseItems :: "jelly_item list"
  UserDatas :: "'x user_data list"
  column_defaults :: 'x
  case_sensitive_like :: bool
  kodiDb_open :: bool
  jellyfinDb_open :: bool
  console :: "console_line list"
  issued :: "statement list"

text \<open>
  What the program cannot decide: the reading of \<open>formatISO9075(new Date())\<close> in loop
  iteration \<open>i\<close>, and which store operations are rejected.
\<close>

record env =
  now :: "nat \<Rightarrow> string"
  fails :: "store_op \<Rightarrow> bool"

subsection \<open>The item query\<close>

definition ascii_lower :: "char \<Rightarrow> char" where
  "ascii_lower c =
     (let n = (of_char c :: nat) in if 65 \<le> n \<and> n \<le> 90 then char_of (n + 32) else c)"

definition like_char :: "bool \<Rightarrow> char \<Rightarrow> char \<Rightarrow> bool" where
  "like_char sensitive p c = (if sensitive then p = c else ascii_lower p = ascii_lower c)"

text \<open>
  The operator \<open>LIKE\<close> of the store, pattern first: \<open>%\<close> stands for any run of
  characters, \<open>_\<close> for any one character, every other character for itself. The program
  passes no escape character.
\<close>

fun like :: "bool \<Rightarrow> string \<Rightarrow> string \<Rightarrow> bool" where
  "like sensitive [] s = (s = [])"
| "like sensitive (p # ps) s =
     (if p = CHR ''%'' then list_ex (like sensitive ps) (suffixes s)
      else case s of
             [] \<Rightarrow> False
           | c # cs \<Rightarrow> (p = CHR ''_'' \<or> like_char sensitive p c) \<and> like sensitive ps cs)"

text \<open>\<open>jellyfinDb("TypedBaseItems").select(...).whereLike("Path", `%${strFilename}%`).first()\<close>\<close>

definition find_item :: "'x world \<Rightarrow> string \<Rightarrow> jelly_item option" where
  "find_item w strFilename' =
     find (\<lambda>item. like (case_sensitive_like w) (''%'' @ strFilename' @ ''%'') (Path item))
       (TypedBaseItems w)"

text \<open>
  For stating what the query finds: a string as the store's \<open>LIKE\<close> compares it, and the
  file names in which no character is a wildcard.
\<close>

definition collate :: "bool \<Rightarrow> string \<Rightarrow> string" where
  "collate sensitive s = (if sensitive then s else map ascii_lower s)"

definition wildcard_free :: "string \<Rightarrow> bool" where
  "wildcard_free s \<longleftrightarrow> CHR ''%'' \<notin> set s \<and> CHR ''_'' \<notin> set s"

subsection \<open>The upsert\<close>

text \<open>\<open>jellyfinDb("UserDatas").where("key", k).first()\<close>\<close>

definition find_existing :: "'x world \<Rightarrow> string \<Rightarrow> 'x user_data option" where
  "find_existing w k = find (\<lambda>row. key row = k) (UserDatas w)"

text \<open>JavaScript's \<open>a || b\<close> on a nullable string: \<open>null\<close> and the empty string are falsy.\<close>

definition or_else :: "string option \<Rightarrow> string \<Rightarrow> string" where
  "or_else a b = (case a of None \<Rightarrow> b | Some s \<Rightarrow> if s = [] then b else s)"

definition make_data :: "string \<Rightarrow> kodi_entry \<Rightarrow> data" where
  "make_data formatted_now kodiEntry =
     \<lparr>userId = 1,
      isFavorite = 0,
      played = 1,
      playbackPositionTicks = 0,
      playCount = kodi_entry.playCount kodiEntry,
      lastPlayedDate = or_else (lastPlayed kodiEntry) formatted_now @ ''.000Z''\<rparr>"

definition update_row :: "data \<Rightarrow> 'x user_data \<Rightarrow> 'x user_data" where
  "update_row d row =
     row\<lparr>userId := userId d,
         isFavorite := isFavorite d,
         played := played d,
         playbackPositionTicks := playbackPositionTicks d,
         playCount := playCount d,
         lastPlayedDate := lastPlayedDate d\<rparr>"

text \<open>\<open>.where("key", k).update({...data})\<close> changes every row that carries the key.\<close>

definition update_where_key :: "string \<Rightarrow> data \<Rightarrow> 'x user_data list \<Rightarrow> 'x user_data list" where
  "update_where_key k d rows = map (\<lambda>row. if key row = k then update_row d row else row) rows"

definition new_row :: "string \<Rightarrow> data \<Rightarrow> 'x \<Rightarrow> 'x user_data" where
  "new_row k d dflt =
     \<lparr>userId = userId d,
      isFavorite = isFavorite d,
      played = played d,
      playbackPositionTicks = playbackPositionTicks d,
      playCount = playCount d,
      lastPlayedDate = lastPlayedDate d,
      key = k,
      others = dflt\<rparr>"

text \<open>\<open>.insert({key: k, ...data})\<close>\<close>

definition insert_row :: "string \<Rightarrow> data \<Rightarrow> 'x \<Rightarrow> 'x user_data list \<Rightarrow> 'x user_data list" where
  "insert_row k d dflt rows = rows @ [new_row k d dflt]"

text \<open>Lines 92 to 120 of the loop body: what happens to a matched entry.\<close>

definition reconcile :: "env \<Rightarrow> nat \<Rightarrow> kodi_entry \<Rightarrow> jelly_item \<Rightarrow> 'x world \<Rightarrow> error + 'x world" where
  "reconcile e i kodiEntry jellyItem w =
     (if fails e (FindExisting i) then Inl (StoreUnavailable (FindExisting i))
      else
        let existing = find_existing w (UserDataKey jellyItem);
            d = make_data (now e i) kodiEntry
        in if fails e (WriteUserData i) then Inl (StoreUnavailable (WriteUserData i))
           else if existing \<noteq> None
           then Inr (w\<lparr>UserDatas := update_where_key (UserDataKey jellyItem) d (UserDatas w),
                       issued := issued w @ [Update (UserDataKey jellyItem) d],
                       console := console w @ [WatchUpdated (strFilename kodiEntry)]\<rparr>)
           else Inr (w\<lparr>UserDatas := insert_row (UserDataKey jellyItem) d (column_defaults w) (UserDatas w),
                       issued := issued w @ [Insert (UserDataKey jellyItem) d],
                       console := console w @ [WatchInserted (strFilename kodiEntry)]\<rparr>))"

text \<open>One iteration of the loop: \<open>Inl\<close> is a thrown error, \<open>continue\<close> leaves the world as it is.\<close>

definition loop_body :: "env \<Rightarrow> nat \<Rightarrow> kodi_entry \<Rightarrow> 'x world \<Rightarrow> error + 'x world" where
  "loop_body e i kodiEntry w =
     (if fails e (FindItem i) then Inl (StoreUnavailable (FindItem i))
      else case find_item w (strFilename kodiEntry) of
             None \<Rightarrow> Inr w
           | Some jellyItem \<Rightarrow> reconcile e i kodiEntry jellyItem w)"

text \<open>The loop over \<open>watched\<close>: an error leaves the loop with the world as it stands.\<close>

fun for_loop :: "env \<Rightarrow> nat \<Rightarrow> kodi_entry list \<Rightarrow> 'x world \<Rightarrow> error option \<times> 'x world" where
  "for_loop e i [] w = (None, w)"
| "for_loop e i (kodiEntry # rest) w =
     (case loop_body e i kodiEntry w of
        Inl err \<Rightarrow> (Some err, w)
      | Inr w' \<Rightarrow> for_loop e (Suc i) rest w')"

definition log :: "console_line \<Rightarrow> 'x world \<Rightarrow> 'x world" where
  "log line w = w\<lparr>console := console w @ [line]\<rparr>"

text \<open>\<open>kodiDb("files").where("playCount", ">", 0).select(...)\<close>\<close>

definition watched :: "'x world \<Rightarrow> kodi_entry list" where
  "watched w = filter (\<lambda>f. 0 < kodi_entry.playCount f) (files w)"

text \<open>The \<open>try\<close> block of \<open>main\<close>.\<close>

definition try_block :: "env \<Rightarrow> 'x world \<Rightarrow> error option \<times> 'x world" where
  "try_block e w0 =
     (let w1 = log Connecting w0 in
      if fails e FetchWatched then (Some (StoreUnavailable FetchWatched), w1)
      else
        let w2 = log (Found (length (watched w1))) w1 in
        case for_loop e 0 (watched w1) w2 of
          (Some err, w3) \<Rightarrow> (Some err, w3)
        | (None, w3) \<Rightarrow> (None, log SyncComplete w3))"

text \<open>\<open>main\<close>: the \<open>try\<close> block, the \<open>catch\<close> that prints the error, the \<open>finally\<close> that destroys both handles.\<close>

definition main :: "env \<Rightarrow> 'x world \<Rightarrow> 'x world" where
  "main e w0 =
     (let (thrown, w1) = try_block e w0;
          w2 = (case thrown of None \<Rightarrow> w1 | Some err \<Rightarrow> log (ErrorLine err) w1)
      in w2\<lparr>kodiDb_open := False, jellyfinDb_open := False\<rparr>)"

text \<open>A run of the program: both handles are created when the module is loaded, then \<open>main\<close> is called.\<close>

definition launch :: "'x world \<Rightarrow> 'x world" where
  "launch w = w\<lparr>kodiDb_open := True, jellyfinDb_open := True, console := [], issued := []\<rparr>"

definition run :: "env \<Rightarrow> 'x world \<Rightarrow> 'x world" where
  "run e w = main e (launch w)"

subsection \<open>A run seen from the rows\<close>

text \<open>
  Devices for the proofs about whole runs. A matched entry comes down to a pair of a key
  and a \<open>data\<close> object; \<open>upsert\<close> is what such a pair does to the rows, \<open>statements\<close> the
  statements a list of pairs issues, \<open>upserts\<close> the pairs of a list of entries whose dates
  do not depend on the clock, and \<open>settle\<close> the last pair of a key applied to a row.
\<close>

definition upsert :: "'x \<Rightarrow> string \<times> data \<Rightarrow> 'x user_data list \<Rightarrow> 'x user_data list" where
  "upsert dflt u rows =
     (if fst u \<in> key ` set rows then update_where_key (fst u) (snd u) rows
      else insert_row (fst u) (snd u) dflt rows)"

fun statements :: "'x \<Rightarrow> (string \<times> data) list \<Rightarrow> 'x user_data list \<Rightarrow> statement list" where
  "statements dflt [] rows = []"
| "statements dflt (u # us) rows =
     (if fst u \<in> key ` set rows then Update (fst u) (snd u) else Insert (fst u) (snd u))
       # statements dflt us (upsert dflt u rows)"

definition upserts :: "'x world \<Rightarrow> kodi_entry list \<Rightarrow> (string \<times> data) list" where
  "upserts w entries =
     concat (map (\<lambda>kodiEntry. case find_item w (strFilename kodiEntry) of
                                None \<Rightarrow> []
                              | Some jellyItem \<Rightarrow> [(UserDataKey jellyItem, make_data [] kodiEntry)])
                 entries)"

definition settle :: "(string \<times> data) list \<Rightarrow> 'x user_data \<Rightarrow> 'x user_data" where
  "settle us row = (case map_of (rev us) (key row) of Some d \<Rightarrow> update_row d row | None \<Rightarrow> row)"

text \<open>What no run changes, and the entries that carry a non-empty last-played value.\<close>

definition catalogue :: "'x world \<Rightarrow> kodi_entry list \<times> jelly_item list \<times> bool \<times> 'x" where
  "catalogue w = (files w, TypedBaseItems w, case_sensitive_like w, column_defaults w)"

definition dated :: "kodi_entry \<Rightarrow> bool" where
  "dated kodiEntry = (case lastPlayed kodiEntry of None \<Rightarrow> False | Some s \<Rightarrow> s \<noteq> [])"

subsection \<open>A small library\<close>

text \<open>
  The scenario of the specification: one watched file, one item whose path ends in the
  file's name, no row for the item yet. The extra column of \<open>UserDatas\<close> is a number.
\<close>

definition example_entry :: kodi_entry where
  "example_entry =
     \<lparr>strFilename = ''Show/S01E01.mkv'', lastPlayed = Some ''2023-01-01 10:00:00'', playCount = 3\<rparr>"

definition example_item :: jelly_item where
  "example_item =
     \<lparr>guid = [0, 1, 2, 3, 4, 5, 6, 7, 8, 9, 10, 11, 12, 13, 14, 255],
      UserDataKey = ''abc123'', Path = ''/mnt/media/Show/S01E01.mkv''\<rparr>"

definition example_world :: "nat world" where
  "example_world =
     \<lparr>files = [example_entry], TypedBaseItems = [example_item], UserDatas = [],
      column_defaults = 0, case_sensitive_like = True, kodiDb_open = True, jellyfinDb_open = True,
      console = [], issued = []\<rparr>"

text \<open>The same library after the row exists, with a rating of 7 in the extra column.\<close>

definition example_row :: "nat user_data" where
  "example_row =
     \<lparr>userId = 1, isFavorite = 1, played = 0, playbackPositionTicks = 5000, playCount = 0,
      lastPlayedDate = ''2020-02-02 02:02:02.000Z'', key = ''abc123'', others = 7\<rparr>"

definition example_world_with_row :: "nat world" where
  "example_world_with_row = example_world\<lparr>UserDatas := [example_row]\<rparr>"

text \<open>A clock that always reads the same, and stores that never fail.\<close>

definition example_env :: env where
  "example_env = \<lparr>now = (\<lambda>i. ''2024-05-05 12:00:00''), fails = (\<lambda>op. False)\<rparr>"

text \<open>Entries for the other cases: no matching item, no date, an empty date.\<close>

definition unmatched_entry :: kodi_entry where
  "unmatched_entry = \<lparr>strFilename = ''Other/S02E05.mkv'', lastPlayed = None, playCount = 1\<rparr>"

definition undated_entry :: kodi_entry where
  "undated_entry = example_entry\<lparr>lastPlayed := None\<rparr>"

definition blank_entry :: kodi_entry where
  "blank_entry = example_entry\<lparr>lastPlayed := Some []\<rparr>"

text \<open>A second clock, five minutes on, and the library with the undated entry as its only file.\<close>

definition later_env :: env where
  "later_env = \<lparr>now = (\<lambda>i. ''2024-05-05 12:05:00''), fails = (\<lambda>op. False)\<rparr>"

definition undated_world :: "nat world" where
  "undated_world = example_world\<lparr>files := [undated_entry]\<rparr>"

text \<open>
  The same episode watched twice: two files whose names both lie in the item's path, and
  the library with a third file behind them.
\<close>

definition replayed_entry :: kodi_entry where
  "replayed_entry =
     \<lparr>strFilename = ''S01E01.mkv'', lastPlayed = Some ''2023-03-03 21:30:00'', playCount = 5\<rparr>"

definition replayed_world :: "nat world" where
  "replayed_world = example_world\<lparr>files := [example_entry, replayed_entry]\<rparr>"

definition interrupted_world :: "nat world" where
  "interrupted_world = example_world\<lparr>files := [example_entry, replayed_entry, example_entry]\<rparr>"

text \<open>Stores that reject the write of the second iteration.\<close>

definition failing_env :: env where
  "failing_env = \<lparr>now = (\<lambda>i. ''2024-05-05 12:00:00''), fails = (\<lambda>op. op = WriteUserData 1)\<rparr>"

text \<open>
  A file whose name holds an underscore, and two items: the first differs from the name at
  the underscore, the second holds the name as it is.
\<close>

definition wildcard_entry :: kodi_entry where
  "wildcard_entry =
     \<lparr>strFilename = ''Show_S01E01.mkv'', lastPlayed = Some ''2023-01-01 10:00:00'', playCount = 1\<rparr>"

definition other_item :: jelly_item where
  "other_item =
     \<lparr>guid = [171, 205, 239, 1, 35, 69, 103, 137, 16, 50, 84, 118, 152, 186, 220, 254],
      UserDataKey = ''other'', Path = ''/mnt/media/Show.S01E01.mkv''\<rparr>"

definition wanted_item :: jelly_item where
  "wanted_item =
     \<lparr>guid = [254, 220, 186, 152, 118, 84, 50, 16, 137, 103, 69, 35, 1, 239, 205, 171],
      UserDataKey = ''wanted'', Path = ''/mnt/media/Show_S01E01.mkv''\<rparr>"

definition wildcard_world :: "nat world" where
  "wildcard_world =
     example_world\<lparr>files := [wildcard_entry], TypedBaseItems := [other_item, wanted_item]\<rparr>"

text \<open>The library with the underscore when the item that holds the name is not there.\<close>

definition lone_world :: "nat world" where
  "lone_world = wildcard_world\<lparr>TypedBaseItems := [other_item]\<rparr>"

section \<open>Properties\<close>

subsection \<open>Identifier formatting\<close>

lemma unhex_hexdigit: "unhex (hexdigit n) = Some (n mod 16)"
proof -
  have "\<forall>k \<in> set [0..<16]. unhex (hexdigit k) = Some k"
    by code_simp
  moreover have "hexdigit n = hexdigit (n mod 16)" by (simp add: hexdigit_def)
  ultimately show ?thesis by simp
qed

lemma length_toString_hex: "length (toString_hex buf) = 2 * length buf"
  by (induction buf) (simp_all add: toString_hex_def)

lemma from_hex_toString_hex: "from_hex (toString_hex buf) = Some buf"
proof (induction buf)
  case Nil
  show ?case by (simp add: toString_hex_def)
next
  case (Cons b bs)
  have lt: "unat b div 16 < 16" using unsigned_less [of b, where ?'a = nat] by simp
  have eq: "toString_hex (b # bs) = hexdigit (unat b div 16) # hexdigit (unat b mod 16) # toString_hex bs"
    by (simp add: toString_hex_def)
  show ?case unfolding eq using Cons lt by (simp add: unhex_hexdigit)
qed

lemma unhex_toString_hex: "c \<in> set (toString_hex buf) \<Longrightarrow> unhex c \<noteq> None"
  by (auto simp: toString_hex_def unhex_hexdigit)

lemma join5: "join [a, b, c, d, e] sep = a @ sep @ b @ sep @ c @ sep @ d @ sep @ e"
  by simp

lemma formatGUID_16:
  assumes "length buf = 16"
  shows "formatGUID buf = Inr (take 8 (toString_hex buf) @ ''-'' @ take 4 (drop 8 (toString_hex buf)) @ ''-'' @
     take 4 (drop 12 (toString_hex buf)) @ ''-'' @ take 4 (drop 16 (toString_hex buf)) @ ''-'' @ drop 20 (toString_hex buf))"
  using assms by (simp add: formatGUID_def Let_def length_toString_hex substring_def)

lemma groups_pieces:
  assumes "length a = 8" "length b = 4" "length c = 4" "length d = 4"
  shows "groups (a @ ''-'' @ b @ ''-'' @ c @ ''-'' @ d @ ''-'' @ e) = [a, b, c, d, e]"
  using assms by (simp add: groups_def)

lemma pieces_whole:
  "take 8 g @ take 4 (drop 8 g) @ take 4 (drop 12 g) @ take 4 (drop 16 g) @ drop 20 g = g"
proof -
  have "take 4 (drop 16 g) @ drop 20 g = drop 16 g"
    using append_take_drop_id [of 4 "drop 16 g"] by simp
  moreover have "take 4 (drop 12 g) @ drop 16 g = drop 12 g"
    using append_take_drop_id [of 4 "drop 12 g"] by simp
  moreover have "take 4 (drop 8 g) @ drop 12 g = drop 8 g"
    using append_take_drop_id [of 4 "drop 8 g"] by simp
  ultimately show ?thesis by simp
qed

text \<open>
  Claim C5. \<open>formatGUID\<close> on sixteen bytes returns a string in the canonical 8-4-4-4-12
  form (36 characters, four hyphens between groups of hexadecimal digits) from which
  \<open>parseGUID\<close> reads the same sixteen bytes back; on a buffer of any other length it
  fails with \<open>InvalidIdentifierLength\<close>.
\<close>

theorem formatGUID_roundtrip:
  "(length buf = 16 \<longrightarrow>
      (\<exists>s. formatGUID buf = Inr s \<and> canonical_form s \<and> parseGUID s = Some buf)) \<and>
   (length buf \<noteq> 16 \<longrightarrow> formatGUID buf = Inl InvalidIdentifierLength)"
proof (intro conjI impI)
  assume len: "length buf = 16"
  define g where "g = toString_hex buf"
  define s where "s = take 8 g @ ''-'' @ take 4 (drop 8 g) @ ''-'' @
     take 4 (drop 12 g) @ ''-'' @ take 4 (drop 16 g) @ ''-'' @ drop 20 g"
  have lg: "length g = 32" using len by (simp add: g_def length_toString_hex)
  have fmt: "formatGUID buf = Inr s"
    using formatGUID_16 [OF len] by (simp add: s_def g_def)
  have grp: "groups s = [take 8 g, take 4 (drop 8 g), take 4 (drop 12 g), take 4 (drop 16 g), drop 20 g]"
    unfolding s_def using lg by (intro groups_pieces) simp_all
  have cat: "concat (groups s) = g"
    unfolding grp using pieces_whole [of g] by simp
  have "length s = 36" using lg by (simp add: s_def)
  moreover have "s = join (groups s) ''-''" unfolding grp by (simp add: s_def)
  moreover have "list_all (\<lambda>c. unhex c \<noteq> None) (concat (groups s))"
    unfolding cat g_def using unhex_toString_hex [of _ buf] by (auto simp: list_all_iff)
  ultimately have can: "canonical_form s" by (simp add: canonical_form_def)
  have "parseGUID s = Some buf"
    using can cat by (simp add: parseGUID_def g_def from_hex_toString_hex)
  with fmt can show "\<exists>s. formatGUID buf = Inr s \<and> canonical_form s \<and> parseGUID s = Some buf"
    by blast
next
  assume "length buf \<noteq> 16"
  then show "formatGUID buf = Inl InvalidIdentifierLength"
    by (simp add: formatGUID_def length_toString_hex)
qed

theorem formatGUID_roundtrip_witness:
  "length [0, 1, 2, 3, 4, 5, 6, 7, 8, 9, 10, 11, 12, 13, 14, 255 :: u8] = 16 \<and>
   formatGUID [0, 1, 2, 3, 4, 5, 6, 7, 8, 9, 10, 11, 12, 13, 14, 255] =
     Inr ''00010203-0405-0607-0809-0a0b0c0d0eff'' \<and>
   parseGUID ''00010203-0405-0607-0809-0a0b0c0d0eff'' =
     Some [0, 1, 2, 3, 4, 5, 6, 7, 8, 9, 10, 11, 12, 13, 14, 255] \<and>
   length [222, 173 :: u8] \<noteq> 16 \<and>
   formatGUID [222, 173] = Inl InvalidIdentifierLength"
proof -
  have f: "formatGUID [0, 1, 2, 3, 4, 5, 6, 7, 8, 9, 10, 11, 12, 13, 14, 255] =
     Inr ''00010203-0405-0607-0809-0a0b0c0d0eff''"
    by code_simp
  show ?thesis
    using formatGUID_roundtrip [of "[0, 1, 2, 3, 4, 5, 6, 7, 8, 9, 10, 11, 12, 13, 14, 255]"]
      formatGUID_roundtrip [of "[222, 173]"] f
    by auto
qed

subsection \<open>One iteration of the loop\<close>

lemma find_existing_None: "find_existing w k = None \<longleftrightarrow> (\<forall>row \<in> set (UserDatas w). key row \<noteq> k)"
  by (auto simp: find_existing_def find_None_iff)

lemma loop_body_matched:
  assumes "find_item w (strFilename kodiEntry) = Some jellyItem"
    and "\<not> fails e (FindItem i)" "\<not> fails e (FindExisting i)" "\<not> fails e (WriteUserData i)"
  shows "loop_body e i kodiEntry w =
    Inr (if \<exists>row \<in> set (UserDatas w). key row = UserDataKey jellyItem
         then w\<lparr>UserDatas := update_where_key (UserDataKey jellyItem) (make_data (now e i) kodiEntry) (UserDatas w),
                issued := issued w @ [Update (UserDataKey jellyItem) (make_data (now e i) kodiEntry)],
                console := console w @ [WatchUpdated (strFilename kodiEntry)]\<rparr>
         else w\<lparr>UserDatas := insert_row (UserDataKey jellyItem) (make_data (now e i) kodiEntry) (column_defaults w) (UserDatas w),
                issued := issued w @ [Insert (UserDataKey jellyItem) (make_data (now e i) kodiEntry)],
                console := console w @ [WatchInserted (strFilename kodiEntry)]\<rparr>)"
proof (cases "find_existing w (UserDataKey jellyItem)")
  case None
  then have "\<not> (\<exists>row \<in> set (UserDatas w). key row = UserDataKey jellyItem)"
    by (simp add: find_existing_None)
  with None assms show ?thesis by (simp add: loop_body_def reconcile_def Let_def)
next
  case (Some r)
  then have "\<exists>row \<in> set (UserDatas w). key row = UserDataKey jellyItem"
    using find_existing_None [of w "UserDataKey jellyItem"] by auto
  with Some assms show ?thesis by (simp add: loop_body_def reconcile_def Let_def)
qed

text \<open>
  Claim C1. When the entry is matched and no row of \<open>UserDatas\<close> carries the item's
  \<open>UserDataKey\<close>, the iteration issues one insert and the table grows by exactly one row:
  its key is the item's key, \<open>userId\<close> is 1, \<open>played\<close> is 1 (true), \<open>isFavorite\<close> is 0
  (false), \<open>playbackPositionTicks\<close> is 0 and \<open>playCount\<close> is the entry's play count.
\<close>

theorem insert_when_no_row:
  assumes "find_item w (strFilename kodiEntry) = Some jellyItem"
    and "\<forall>row \<in> set (UserDatas w). key row \<noteq> UserDataKey jellyItem"
    and "\<not> fails e (FindItem i)" "\<not> fails e (FindExisting i)" "\<not> fails e (WriteUserData i)"
  shows "\<exists>w' row. loop_body e i kodiEntry w = Inr w' \<and>
     UserDatas w' = UserDatas w @ [row] \<and>
     issued w' = issued w @ [Insert (key row) (data.truncate row)] \<and>
     key row = UserDataKey jellyItem \<and> userId row = 1 \<and> played row = 1 \<and> isFavorite row = 0 \<and>
     playbackPositionTicks row = 0 \<and> playCount row = kodi_entry.playCount kodiEntry"
  using assms loop_body_matched [of w kodiEntry jellyItem e i]
  by (simp add: insert_row_def new_row_def make_data_def data.truncate_def)

text \<open>
  When the item query returns nothing, the iteration leaves the world as it is and raises
  nothing, and the loop goes on with the entries behind.
\<close>

lemma loop_body_unmatched:
  assumes "find_item w (strFilename kodiEntry) = None" and "\<not> fails e (FindItem i)"
  shows "loop_body e i kodiEntry w = Inr w \<and>
         for_loop e i (kodiEntry # rest) w = for_loop e (Suc i) rest w"
  using assms by (simp add: loop_body_def)

lemma update_where_key_length: "length (update_where_key k d rows) = length rows"
  by (simp add: update_where_key_def)

lemma update_row_key: "key (update_row d row) = key row"
  by (simp add: update_row_def)

lemma update_row_others: "others (update_row d row) = others row"
  by (simp add: update_row_def)

lemma update_row_truncate: "data.truncate (update_row d row) = d"
  by (simp add: update_row_def data.truncate_def)

text \<open>
  Claim C7. When the entry is matched and a row with the item's key exists, the update
  keeps the number of rows; in every row the key and the columns outside \<open>data\<close> are what
  they were; the rows with the item's key carry exactly the new \<open>data\<close> in the six payload
  columns, and every other row is untouched.
\<close>

theorem update_keeps_other_fields:
  assumes "find_item w (strFilename kodiEntry) = Some jellyItem"
    and "\<exists>row \<in> set (UserDatas w). key row = UserDataKey jellyItem"
    and "\<not> fails e (FindItem i)" "\<not> fails e (FindExisting i)" "\<not> fails e (WriteUserData i)"
  shows "\<exists>w'. loop_body e i kodiEntry w = Inr w' \<and>
     length (UserDatas w') = length (UserDatas w) \<and>
     (\<forall>j < length (UserDatas w).
        key (UserDatas w' ! j) = key (UserDatas w ! j) \<and>
        others (UserDatas w' ! j) = others (UserDatas w ! j) \<and>
        (key (UserDatas w ! j) = UserDataKey jellyItem \<longrightarrow>
           data.truncate (UserDatas w' ! j) = make_data (now e i) kodiEntry) \<and>
        (key (UserDatas w ! j) \<noteq> UserDataKey jellyItem \<longrightarrow> UserDatas w' ! j = UserDatas w ! j))"
proof -
  define k where "k = UserDataKey jellyItem"
  define d where "d = make_data (now e i) kodiEntry"
  define w' where "w' = w\<lparr>UserDatas := update_where_key k d (UserDatas w),
      issued := issued w @ [Update k d],
      console := console w @ [WatchUpdated (strFilename kodiEntry)]\<rparr>"
  have body: "loop_body e i kodiEntry w = Inr w'"
    using loop_body_matched [OF assms(1,3,4,5)] assms(2) by (simp add: w'_def k_def d_def)
  have rows: "UserDatas w' = update_where_key k d (UserDatas w)" by (simp add: w'_def)
  have len: "length (UserDatas w') = length (UserDatas w)"
    by (simp add: rows update_where_key_length)
  have each: "key (UserDatas w' ! j) = key (UserDatas w ! j) \<and>
        others (UserDatas w' ! j) = others (UserDatas w ! j) \<and>
        (key (UserDatas w ! j) = k \<longrightarrow> data.truncate (UserDatas w' ! j) = d) \<and>
        (key (UserDatas w ! j) \<noteq> k \<longrightarrow> UserDatas w' ! j = UserDatas w ! j)"
    if "j < length (UserDatas w)" for j
    using that
    by (simp add: rows update_where_key_def update_row_key update_row_others update_row_truncate)
  from body len each show ?thesis unfolding k_def d_def by blast
qed

lemma map_key_update_where_key: "map key (update_where_key k d rows) = map key rows"
  by (induction rows) (simp_all add: update_where_key_def update_row_key)

lemma update_where_key_has_key:
  "row \<in> set rows \<Longrightarrow> key row = k \<Longrightarrow> \<exists>row' \<in> set (update_where_key k d rows). key row' = k"
  by (induction rows) (auto simp: update_where_key_def update_row_key)

lemma updated_rows_carry_data:
  "row \<in> set (update_where_key k d rows) \<Longrightarrow> key row = k \<Longrightarrow> data.truncate row = d"
proof (induction rows)
  case Nil
  then show ?case by (simp add: update_where_key_def)
next
  case (Cons r rows)
  have "update_where_key k d (r # rows) =
      (if key r = k then update_row d r else r) # update_where_key k d rows"
    by (simp add: update_where_key_def)
  with Cons.prems have "row = (if key r = k then update_row d r else r) \<or> row \<in> set (update_where_key k d rows)"
    by simp
  then show ?case
  proof
    assume "row = (if key r = k then update_row d r else r)"
    with Cons.prems(2) show ?thesis
      by (cases "key r = k") (simp_all add: update_row_truncate)
  next
    assume "row \<in> set (update_where_key k d rows)"
    with Cons show ?thesis by simp
  qed
qed

lemma written_rows:
  assumes "find_item w (strFilename kodiEntry) = Some jellyItem"
    and "\<not> fails e (FindItem i)" "\<not> fails e (FindExisting i)" "\<not> fails e (WriteUserData i)"
  shows "\<exists>w' st. loop_body e i kodiEntry w = Inr w' \<and> issued w' = issued w @ [st] \<and>
     statement_key st = UserDataKey jellyItem \<and>
     statement_data st = make_data (now e i) kodiEntry \<and>
     (\<exists>row \<in> set (UserDatas w'). key row = UserDataKey jellyItem) \<and>
     (\<forall>row \<in> set (UserDatas w'). key row = UserDataKey jellyItem \<longrightarrow>
        data.truncate row = make_data (now e i) kodiEntry)"
proof (cases "\<exists>row \<in> set (UserDatas w). key row = UserDataKey jellyItem")
  case True
  define k where "k = UserDataKey jellyItem"
  define d where "d = make_data (now e i) kodiEntry"
  define w' where "w' = w\<lparr>UserDatas := update_where_key k d (UserDatas w),
      issued := issued w @ [Update k d],
      console := console w @ [WatchUpdated (strFilename kodiEntry)]\<rparr>"
  have body: "loop_body e i kodiEntry w = Inr w'"
    using loop_body_matched [OF assms] True by (simp add: w'_def k_def d_def)
  have rows: "UserDatas w' = update_where_key k d (UserDatas w)" by (simp add: w'_def)
  from True obtain r where "r \<in> set (UserDatas w)" "key r = k" unfolding k_def by blast
  then have ex: "\<exists>row \<in> set (UserDatas w'). key row = k"
    unfolding rows by (rule update_where_key_has_key)
  have all: "\<forall>row \<in> set (UserDatas w'). key row = k \<longrightarrow> data.truncate row = d"
    unfolding rows using updated_rows_carry_data [of _ k d "UserDatas w"] by blast
  have "issued w' = issued w @ [Update k d]" by (simp add: w'_def)
  with body ex all show ?thesis
    unfolding k_def d_def by (intro exI [of _ w'] exI [of _ "Update (UserDataKey jellyItem) (make_data (now e i) kodiEntry)"]) simp
next
  case False
  define k where "k = UserDataKey jellyItem"
  define d where "d = make_data (now e i) kodiEntry"
  define w' where "w' = w\<lparr>UserDatas := insert_row k d (column_defaults w) (UserDatas w),
      issued := issued w @ [Insert k d],
      console := console w @ [WatchInserted (strFilename kodiEntry)]\<rparr>"
  have body: "loop_body e i kodiEntry w = Inr w'"
    using loop_body_matched [OF assms] False by (simp add: w'_def k_def d_def)
  have rows: "UserDatas w' = UserDatas w @ [new_row k d (column_defaults w)]"
    by (simp add: w'_def insert_row_def)
  have nk: "key (new_row k d (column_defaults w)) = k" by (simp add: new_row_def)
  have nd: "data.truncate (new_row k d (column_defaults w)) = d"
    by (simp add: new_row_def data.truncate_def)
  have ex: "\<exists>row \<in> set (UserDatas w'). key row = k"
    unfolding rows using nk by simp
  have old: "\<forall>row \<in> set (UserDatas w). key row \<noteq> k" using False by (simp add: k_def)
  have all: "\<forall>row \<in> set (UserDatas w'). key row = k \<longrightarrow> data.truncate row = d"
    unfolding rows using old nd by simp
  have "issued w' = issued w @ [Insert k d]" by (simp add: w'_def)
  with body ex all show ?thesis
    unfolding k_def d_def by (intro exI [of _ w'] exI [of _ "Insert (UserDataKey jellyItem) (make_data (now e i) kodiEntry)"]) simp
qed

subsection \<open>The iteration on the small library\<close>

lemma example_match: "find_item example_world (strFilename example_entry) = Some example_item"
  by code_simp

lemma example_match_with_row:
  "find_item example_world_with_row (strFilename example_entry) = Some example_item"
  by code_simp

lemma example_no_failure: "\<not> fails example_env op"
  by (simp add: example_env_def)

theorem insert_when_no_row_witness:
  "find_item example_world (strFilename example_entry) = Some example_item \<and>
   UserDatas example_world = [] \<and>
   (\<exists>w' row. loop_body example_env 0 example_entry example_world = Inr w' \<and>
     UserDatas w' = UserDatas example_world @ [row] \<and>
     key row = ''abc123'' \<and> userId row = 1 \<and> played row = 1 \<and> isFavorite row = 0 \<and>
     playbackPositionTicks row = 0 \<and> playCount row = 3)"
proof -
  have empty: "UserDatas example_world = []"
    by (simp add: example_world_def)
  have none: "\<forall>row \<in> set (UserDatas example_world). key row \<noteq> UserDataKey example_item"
    by (simp add: empty)
  have key: "UserDataKey example_item = ''abc123''" by (simp add: example_item_def)
  have cnt: "kodi_entry.playCount example_entry = 3" by (simp add: example_entry_def)
  show ?thesis
    using insert_when_no_row [OF example_match none example_no_failure example_no_failure example_no_failure, of 0]
      example_match empty
    unfolding key cnt by blast
qed

text \<open>
  An entry without a matching item in front of the example entry: the loop skips the first
  and writes the row of the second.
\<close>

lemma unmatched_example: "find_item example_world (strFilename unmatched_entry) = None"
  by code_simp

lemma loop_goes_on_after_unmatched:
  "map key (UserDatas (snd (for_loop example_env 0 [unmatched_entry, example_entry] example_world))) =
     [''abc123''] \<and>
   map statement_key (issued (snd (for_loop example_env 0 [unmatched_entry, example_entry] example_world))) =
     [''abc123''] \<and>
   console (snd (for_loop example_env 0 [unmatched_entry, example_entry] example_world)) =
     [WatchInserted ''Show/S01E01.mkv'']"
  by code_simp

theorem update_keeps_other_fields_witness:
  "find_item example_world_with_row (strFilename example_entry) = Some example_item \<and>
   (\<exists>row \<in> set (UserDatas example_world_with_row). key row = UserDataKey example_item) \<and>
   (\<exists>w'. loop_body example_env 0 example_entry example_world_with_row = Inr w' \<and>
      length (UserDatas w') = 1 \<and>
      key (UserDatas w' ! 0) = ''abc123'' \<and> others (UserDatas w' ! 0) = 7 \<and>
      data.truncate (UserDatas w' ! 0) = make_data ''2024-05-05 12:00:00'' example_entry)"
proof -
  have rows: "UserDatas example_world_with_row = [example_row]"
    by (simp add: example_world_with_row_def)
  have k: "key example_row = ''abc123''" "others example_row = 7"
    by (simp_all add: example_row_def)
  have ik: "UserDataKey example_item = ''abc123''" by (simp add: example_item_def)
  have ex: "\<exists>row \<in> set (UserDatas example_world_with_row). key row = UserDataKey example_item"
    by (simp add: rows k ik)
  have clock: "now example_env 0 = ''2024-05-05 12:00:00''" by (simp add: example_env_def)
  show ?thesis
    using update_keeps_other_fields [OF example_match_with_row ex example_no_failure example_no_failure example_no_failure, of 0]
      example_match_with_row ex
    unfolding rows clock by (simp add: k ik)
qed

lemma lastPlayedDate_truncate: "lastPlayedDate (data.truncate row) = lastPlayedDate row"
  by (simp add: data.truncate_def)

text \<open>
  Claim C6. For a matched entry the statement issued carries, as \<open>lastPlayedDate\<close>, the
  reading of the clock taken in that iteration followed by \<open>.000Z\<close> when the entry has no
  last-played value, and the entry's value followed by \<open>.000Z\<close> when it has a (non-empty)
  one; the rows with the item's key hold that same string afterwards. The clock is the
  environment's: how close its reading is to the call is outside the model.
\<close>

theorem lastPlayedDate_written:
  assumes "find_item w (strFilename kodiEntry) = Some jellyItem"
    and "\<not> fails e (FindItem i)" "\<not> fails e (FindExisting i)" "\<not> fails e (WriteUserData i)"
  shows "\<exists>w' st. loop_body e i kodiEntry w = Inr w' \<and> issued w' = issued w @ [st] \<and>
     statement_key st = UserDataKey jellyItem \<and>
     (lastPlayed kodiEntry = None \<longrightarrow> lastPlayedDate (statement_data st) = now e i @ ''.000Z'') \<and>
     (\<forall>s. lastPlayed kodiEntry = Some s \<and> s \<noteq> [] \<longrightarrow>
        lastPlayedDate (statement_data st) = s @ ''.000Z'') \<and>
     (\<exists>row \<in> set (UserDatas w'). key row = UserDataKey jellyItem) \<and>
     (\<forall>row \<in> set (UserDatas w'). key row = UserDataKey jellyItem \<longrightarrow>
        lastPlayedDate row = lastPlayedDate (statement_data st))"
proof -
  from written_rows [OF assms] obtain w' st where
    body: "loop_body e i kodiEntry w = Inr w'" "issued w' = issued w @ [st]"
      "statement_key st = UserDataKey jellyItem"
    and st: "statement_data st = make_data (now e i) kodiEntry"
    and ex: "\<exists>row \<in> set (UserDatas w'). key row = UserDataKey jellyItem"
    and all: "\<forall>row \<in> set (UserDatas w'). key row = UserDataKey jellyItem \<longrightarrow>
        data.truncate row = make_data (now e i) kodiEntry"
    by blast
  have absent: "lastPlayed kodiEntry = None \<longrightarrow> lastPlayedDate (statement_data st) = now e i @ ''.000Z''"
    by (simp add: st make_data_def or_else_def)
  have present: "\<forall>s. lastPlayed kodiEntry = Some s \<and> s \<noteq> [] \<longrightarrow>
        lastPlayedDate (statement_data st) = s @ ''.000Z''"
    by (simp add: st make_data_def or_else_def)
  have rows: "\<forall>row \<in> set (UserDatas w'). key row = UserDataKey jellyItem \<longrightarrow>
        lastPlayedDate row = lastPlayedDate (statement_data st)"
  proof (intro ballI impI)
    fix row assume "row \<in> set (UserDatas w')" "key row = UserDataKey jellyItem"
    with all have "data.truncate row = statement_data st" by (simp add: st)
    then have "lastPlayedDate (data.truncate row) = lastPlayedDate (statement_data st)" by simp
    then show "lastPlayedDate row = lastPlayedDate (statement_data st)"
      by (simp only: lastPlayedDate_truncate)
  qed
  show ?thesis
    by (rule exI [of _ w'], rule exI [of _ st], intro conjI) (rule body absent present ex rows)+
qed


lemma undated_match: "find_item example_world (strFilename undated_entry) = Some example_item"
  by code_simp

lemma blank_match: "find_item example_world (strFilename blank_entry) = Some example_item"
  by code_simp

theorem lastPlayedDate_written_witness:
  "find_item example_world (strFilename undated_entry) = Some example_item \<and>
   lastPlayed undated_entry = None \<and>
   (\<exists>w' st. loop_body example_env 0 undated_entry example_world = Inr w' \<and>
      issued w' = issued example_world @ [st] \<and>
      lastPlayedDate (statement_data st) = ''2024-05-05 12:00:00.000Z'') \<and>
   find_item example_world (strFilename example_entry) = Some example_item \<and>
   lastPlayed example_entry = Some ''2023-01-01 10:00:00'' \<and>
   (\<exists>w' st. loop_body example_env 0 example_entry example_world = Inr w' \<and>
      issued w' = issued example_world @ [st] \<and>
      lastPlayedDate (statement_data st) = ''2023-01-01 10:00:00.000Z'')"
proof -
  have none: "lastPlayed undated_entry = None"
    by (simp add: undated_entry_def)
  have some: "lastPlayed example_entry = Some ''2023-01-01 10:00:00''"
    by (simp add: example_entry_def)
  have clock: "now example_env 0 = ''2024-05-05 12:00:00''"
    by (simp add: example_env_def)
  from lastPlayedDate_written [OF undated_match example_no_failure example_no_failure example_no_failure, of 0]
  obtain w1 st1 where a: "loop_body example_env 0 undated_entry example_world = Inr w1"
      "issued w1 = issued example_world @ [st1]"
      "lastPlayed undated_entry = None \<longrightarrow> lastPlayedDate (statement_data st1) = now example_env 0 @ ''.000Z''"
    by (elim exE conjE)
  from a(3) none clock have a3: "lastPlayedDate (statement_data st1) = ''2024-05-05 12:00:00.000Z''"
    by simp
  from lastPlayedDate_written [OF example_match example_no_failure example_no_failure example_no_failure, of 0]
  obtain w2 st2 where b: "loop_body example_env 0 example_entry example_world = Inr w2"
      "issued w2 = issued example_world @ [st2]"
      "\<forall>s. lastPlayed example_entry = Some s \<and> s \<noteq> [] \<longrightarrow> lastPlayedDate (statement_data st2) = s @ ''.000Z''"
    by (elim exE conjE)
  from b(3) some have b3: "lastPlayedDate (statement_data st2) = ''2023-01-01 10:00:00.000Z''"
    by simp
  have first: "\<exists>w' st. loop_body example_env 0 undated_entry example_world = Inr w' \<and>
      issued w' = issued example_world @ [st] \<and>
      lastPlayedDate (statement_data st) = ''2024-05-05 12:00:00.000Z''"
    by (rule exI [of _ w1], rule exI [of _ st1], intro conjI) (rule a(1) a(2) a3)+
  have second: "\<exists>w' st. loop_body example_env 0 example_entry example_world = Inr w' \<and>
      issued w' = issued example_world @ [st] \<and>
      lastPlayedDate (statement_data st) = ''2023-01-01 10:00:00.000Z''"
    by (rule exI [of _ w2], rule exI [of _ st2], intro conjI) (rule b(1) b(2) b3)+
  show ?thesis
    by (intro conjI) (rule undated_match none first example_match some second)+
qed

lemma make_data_blank:
  "lastPlayed kodiEntry = Some [] \<Longrightarrow>
   make_data n (kodiEntry\<lparr>lastPlayed := None\<rparr>) = make_data n kodiEntry"
  by (simp add: make_data_def or_else_def)

text \<open>
  Claim C10. For a matched entry whose \<open>lastPlayed\<close> is the empty string the statement
  issued carries the clock's reading followed by \<open>.000Z\<close>, which is not the bare \<open>.000Z\<close>
  the empty string would give whenever the clock's reading is not empty; a row with the
  item's key holding that date is in \<open>UserDatas\<close> afterwards, every row with the key holds
  it, and the iteration ends in the very world it would end in had the value been absent.
\<close>

theorem empty_lastPlayed_is_absent:
  assumes "lastPlayed kodiEntry = Some []"
    and "find_item w (strFilename kodiEntry) = Some jellyItem"
    and "\<not> fails e (FindItem i)" "\<not> fails e (FindExisting i)" "\<not> fails e (WriteUserData i)"
  shows "\<exists>w' st. loop_body e i kodiEntry w = Inr w' \<and> issued w' = issued w @ [st] \<and>
     statement_key st = UserDataKey jellyItem \<and>
     lastPlayedDate (statement_data st) = now e i @ ''.000Z'' \<and>
     (\<exists>row \<in> set (UserDatas w'). key row = UserDataKey jellyItem \<and>
        lastPlayedDate row = now e i @ ''.000Z'') \<and>
     (\<forall>row \<in> set (UserDatas w'). key row = UserDataKey jellyItem \<longrightarrow>
        lastPlayedDate row = now e i @ ''.000Z'') \<and>
     (now e i \<noteq> [] \<longrightarrow> lastPlayedDate (statement_data st) \<noteq> ''.000Z'') \<and>
     loop_body e i (kodiEntry\<lparr>lastPlayed := None\<rparr>) w = Inr w'"
proof -
  from written_rows [OF assms(2-5)] obtain w' st where
    body: "loop_body e i kodiEntry w = Inr w'"
    and iss: "issued w' = issued w @ [st]"
    and sk: "statement_key st = UserDataKey jellyItem"
    and st: "statement_data st = make_data (now e i) kodiEntry"
    and ex: "\<exists>row \<in> set (UserDatas w'). key row = UserDataKey jellyItem"
    and all: "\<forall>row \<in> set (UserDatas w'). key row = UserDataKey jellyItem \<longrightarrow>
        data.truncate row = make_data (now e i) kodiEntry"
    by (elim exE conjE)
  have md: "lastPlayedDate (make_data (now e i) kodiEntry) = now e i @ ''.000Z''"
    using assms(1) by (simp add: make_data_def or_else_def)
  have date: "lastPlayedDate (statement_data st) = now e i @ ''.000Z''"
    by (simp only: st md)
  have rows: "\<forall>row \<in> set (UserDatas w'). key row = UserDataKey jellyItem \<longrightarrow>
        lastPlayedDate row = now e i @ ''.000Z''"
  proof (intro ballI impI)
    fix row assume "row \<in> set (UserDatas w')" "key row = UserDataKey jellyItem"
    with all have "data.truncate row = make_data (now e i) kodiEntry" by simp
    then have "lastPlayedDate (data.truncate row) = now e i @ ''.000Z''" by (simp only: md)
    then show "lastPlayedDate row = now e i @ ''.000Z''"
      by (simp only: lastPlayedDate_truncate)
  qed
  from ex obtain r where r: "r \<in> set (UserDatas w')" "key r = UserDataKey jellyItem" ..
  with rows have "lastPlayedDate r = now e i @ ''.000Z''" by simp
  with r have stored: "\<exists>row \<in> set (UserDatas w'). key row = UserDataKey jellyItem \<and>
        lastPlayedDate row = now e i @ ''.000Z''"
    by (intro bexI [of _ r] conjI)
  have differs: "now e i \<noteq> [] \<longrightarrow> lastPlayedDate (statement_data st) \<noteq> ''.000Z''"
    by (simp add: date)
  have same: "loop_body e i (kodiEntry\<lparr>lastPlayed := None\<rparr>) w = loop_body e i kodiEntry w"
    by (simp add: loop_body_def reconcile_def Let_def make_data_blank [OF assms(1)] split: option.split)
  have none: "loop_body e i (kodiEntry\<lparr>lastPlayed := None\<rparr>) w = Inr w'"
    by (simp only: same body)
  show ?thesis
    by (rule exI [of _ w'], rule exI [of _ st], intro conjI)
      (rule body iss sk date stored rows differs none)+
qed

theorem empty_lastPlayed_is_absent_witness:
  "lastPlayed blank_entry = Some [] \<and>
   find_item example_world (strFilename blank_entry) = Some example_item \<and>
   UserDatas example_world = [] \<and>
   (\<exists>w' st. loop_body example_env 0 blank_entry example_world = Inr w' \<and>
      issued w' = issued example_world @ [st] \<and>
      lastPlayedDate (statement_data st) = ''2024-05-05 12:00:00.000Z'' \<and>
      map key (UserDatas w') = [''abc123''] \<and>
      map lastPlayedDate (UserDatas w') = [''2024-05-05 12:00:00.000Z''])"
proof -
  have blank: "lastPlayed blank_entry = Some []"
    by (simp add: blank_entry_def)
  have empty: "UserDatas example_world = []"
    by (simp add: example_world_def)
  have clock: "now example_env 0 = ''2024-05-05 12:00:00''"
    by (simp add: example_env_def)
  from empty_lastPlayed_is_absent [OF blank blank_match example_no_failure example_no_failure example_no_failure, of 0]
  obtain w1 st1 where a: "loop_body example_env 0 blank_entry example_world = Inr w1"
      "issued w1 = issued example_world @ [st1]"
      "lastPlayedDate (statement_data st1) = now example_env 0 @ ''.000Z''"
    by (elim exE conjE)
  from a(3) clock have a3: "lastPlayedDate (statement_data st1) = ''2024-05-05 12:00:00.000Z''"
    by simp
  have "(case loop_body example_env 0 blank_entry example_world of
           Inl err \<Rightarrow> [] | Inr w' \<Rightarrow> map key (UserDatas w')) = [''abc123'']"
    by code_simp
  then have keys: "map key (UserDatas w1) = [''abc123'']"
    by (simp only: a(1) sum.case)
  have "(case loop_body example_env 0 blank_entry example_world of
           Inl err \<Rightarrow> [] | Inr w' \<Rightarrow> map lastPlayedDate (UserDatas w')) = [''2024-05-05 12:00:00.000Z'']"
    by code_simp
  then have dates: "map lastPlayedDate (UserDatas w1) = [''2024-05-05 12:00:00.000Z'']"
    by (simp only: a(1) sum.case)
  have run: "\<exists>w' st. loop_body example_env 0 blank_entry example_world = Inr w' \<and>
      issued w' = issued example_world @ [st] \<and>
      lastPlayedDate (statement_data st) = ''2024-05-05 12:00:00.000Z'' \<and>
      map key (UserDatas w') = [''abc123''] \<and>
      map lastPlayedDate (UserDatas w') = [''2024-05-05 12:00:00.000Z'']"
    by (rule exI [of _ w1], rule exI [of _ st1], intro conjI) (rule a(1) a(2) a3 keys dates)+
  show ?thesis
    by (intro conjI) (rule blank blank_match empty run)+
qed

subsection \<open>Whole runs\<close>

lemma update_row_twice: "update_row d (update_row d' row) = update_row d row"
  by (simp add: update_row_def)

lemma update_row_same: "data.truncate row = d \<Longrightarrow> update_row d row = row"
  by (cases row) (auto simp: update_row_def data.truncate_def)

lemma keys_update_where_key: "key ` set (update_where_key k d rows) = key ` set rows"
proof -
  have "set (map key (update_where_key k d rows)) = set (map key rows)"
    by (simp only: map_key_update_where_key)
  then show ?thesis by (simp only: set_map)
qed

lemma keys_insert_row: "key ` set (insert_row k d dflt rows) = insert k (key ` set rows)"
  by (simp add: insert_row_def new_row_def)

lemma keys_upsert: "key ` set (upsert dflt u rows) = insert (fst u) (key ` set rows)"
  by (auto simp: upsert_def keys_update_where_key keys_insert_row)

lemma other_rows_update_where_key:
  "row \<in> set (update_where_key k d rows) \<Longrightarrow> key row \<noteq> k \<Longrightarrow> row \<in> set rows"
  by (induction rows) (auto simp: update_where_key_def update_row_key split: if_splits)

lemma other_rows_upsert:
  "row \<in> set (upsert dflt u rows) \<Longrightarrow> key row \<noteq> fst u \<Longrightarrow> row \<in> set rows"
proof (cases "fst u \<in> key ` set rows")
  case True
  assume "row \<in> set (upsert dflt u rows)" "key row \<noteq> fst u"
  with True show ?thesis
    by (simp add: upsert_def other_rows_update_where_key)
next
  case False
  assume "row \<in> set (upsert dflt u rows)" "key row \<noteq> fst u"
  with False show ?thesis
    by (auto simp: upsert_def insert_row_def new_row_def)
qed

lemma keyed_rows_upsert:
  assumes "row \<in> set (upsert dflt u rows)" and "key row = fst u"
  shows "data.truncate row = snd u"
proof (cases "fst u \<in> key ` set rows")
  case True
  with assms show ?thesis
    by (simp add: upsert_def updated_rows_carry_data)
next
  case False
  then have "\<forall>r \<in> set rows. key r \<noteq> fst u" by (metis image_eqI)
  with assms False have "row = new_row (fst u) (snd u) dflt"
    by (auto simp: upsert_def insert_row_def)
  then show ?thesis by (simp add: new_row_def data.truncate_def)
qed

lemma keys_fold_upsert:
  "key ` set (fold (upsert dflt) us rows) = fst ` set us \<union> key ` set rows"
  by (induction us arbitrary: rows) (auto simp: keys_upsert)

lemma untouched_rows_fold_upsert:
  "row \<in> set (fold (upsert dflt) us rows) \<Longrightarrow> key row \<notin> fst ` set us \<Longrightarrow> row \<in> set rows"
proof (induction us arbitrary: rows)
  case Nil
  then show ?case by simp
next
  case (Cons u us)
  from Cons.prems have "row \<in> set (fold (upsert dflt) us (upsert dflt u rows))"
    and "key row \<notin> fst ` set us" and "key row \<noteq> fst u"
    by simp_all
  then have "row \<in> set (upsert dflt u rows)" using Cons.IH by blast
  then show ?case using \<open>key row \<noteq> fst u\<close> by (rule other_rows_upsert)
qed

lemma map_of_rev_Cons:
  "map_of (rev (u # us)) k =
     (case map_of (rev us) k of Some d \<Rightarrow> Some d | None \<Rightarrow> if fst u = k then Some (snd u) else None)"
  by (cases u) (simp add: map_add_def split: option.split)

lemma last_write_wins:
  "row \<in> set (fold (upsert dflt) us rows) \<Longrightarrow> map_of (rev us) (key row) = Some d \<Longrightarrow>
   data.truncate row = d"
proof (induction us arbitrary: rows)
  case Nil
  then show ?case by simp
next
  case (Cons u us)
  from Cons.prems(1) have mem: "row \<in> set (fold (upsert dflt) us (upsert dflt u rows))"
    by simp
  from Cons.prems(2) have last:
    "(case map_of (rev us) (key row) of Some d \<Rightarrow> Some d
      | None \<Rightarrow> if fst u = key row then Some (snd u) else None) = Some d"
    by (simp only: map_of_rev_Cons)
  show ?case
  proof (cases "map_of (rev us) (key row)")
    case (Some d')
    with last have "d' = d" by simp
    with Some mem Cons.IH show ?thesis by blast
  next
    case None
    with last have u: "fst u = key row" "snd u = d"
      by (simp_all split: if_splits)
    from None have "key row \<notin> fst ` set (rev us)"
      by (simp only: map_of_eq_None_iff not_False_eq_True)
    then have "key row \<notin> fst ` set us" by simp
    with mem have "row \<in> set (upsert dflt u rows)"
      by (rule untouched_rows_fold_upsert)
    then have "data.truncate row = snd u"
      using u(1) by (intro keyed_rows_upsert [of row dflt u rows]) simp_all
    with u(2) show ?thesis by simp
  qed
qed

lemma key_settle: "key (settle us row) = key row"
  by (simp add: settle_def update_row_key split: option.split)

lemma settle_Cons:
  "settle (u # us) row = settle us (if key row = fst u then update_row (snd u) row else row)"
proof (cases "fst u = key row")
  case True
  show ?thesis
  proof (cases "map_of (rev us) (key row)")
    case None
    with True show ?thesis
      unfolding settle_def map_of_rev_Cons by (simp add: update_row_key)
  next
    case (Some d)
    with True show ?thesis
      unfolding settle_def map_of_rev_Cons by (simp add: update_row_key update_row_twice)
  qed
next
  case False
  then have ne: "key row \<noteq> fst u" by simp
  show ?thesis
  proof (cases "map_of (rev us) (key row)")
    case None
    with False ne show ?thesis
      unfolding settle_def map_of_rev_Cons by simp
  next
    case (Some d)
    with False ne show ?thesis
      unfolding settle_def map_of_rev_Cons by simp
  qed
qed

lemma fold_upsert_present:
  "fst ` set us \<subseteq> key ` set rows \<Longrightarrow> fold (upsert dflt) us rows = map (settle us) rows"
proof (induction us arbitrary: rows)
  case Nil
  show ?case by (simp add: settle_def)
next
  case (Cons u us)
  from Cons.prems have here: "fst u \<in> key ` set rows" and rest: "fst ` set us \<subseteq> key ` set rows"
    by simp_all
  have step: "upsert dflt u rows = update_where_key (fst u) (snd u) rows"
    using here by (simp add: upsert_def)
  have "fst ` set us \<subseteq> key ` set (update_where_key (fst u) (snd u) rows)"
    using rest by (simp only: keys_update_where_key)
  then have "fold (upsert dflt) us (update_where_key (fst u) (snd u) rows) =
      map (settle us) (update_where_key (fst u) (snd u) rows)"
    by (rule Cons.IH)
  also have "\<dots> = map (settle (u # us)) rows"
    by (simp add: update_where_key_def settle_Cons)
  finally show ?case by (simp add: step)
qed

lemma settle_settled:
  assumes "row \<in> set (fold (upsert dflt) us rows)"
  shows "settle us row = row"
proof (cases "map_of (rev us) (key row)")
  case None
  then show ?thesis by (simp add: settle_def)
next
  case (Some d)
  with assms have "data.truncate row = d" by (rule last_write_wins)
  then have "update_row d row = row" by (rule update_row_same)
  with Some show ?thesis by (simp add: settle_def)
qed

lemma fold_upsert_twice:
  "fold (upsert dflt) us (fold (upsert dflt) us rows) = fold (upsert dflt) us rows"
proof -
  have "fst ` set us \<subseteq> key ` set (fold (upsert dflt) us rows)"
    by (simp add: keys_fold_upsert)
  then have "fold (upsert dflt) us (fold (upsert dflt) us rows) =
      map (settle us) (fold (upsert dflt) us rows)"
    by (rule fold_upsert_present)
  also have "\<dots> = fold (upsert dflt) us rows"
    by (rule map_idI) (rule settle_settled)
  finally show ?thesis .
qed

lemma statements_data: "map statement_data (statements dflt us rows) = map snd us"
  by (induction us arbitrary: rows) simp_all

lemma statements_key: "map statement_key (statements dflt us rows) = map fst us"
  by (induction us arbitrary: rows) simp_all

lemma statements_present:
  "fst ` set us \<subseteq> key ` set rows \<Longrightarrow> list_all is_update (statements dflt us rows)"
proof (induction us arbitrary: rows)
  case Nil
  show ?case by simp
next
  case (Cons u us)
  from Cons.prems have here: "fst u \<in> key ` set rows" and rest: "fst ` set us \<subseteq> key ` set rows"
    by simp_all
  have "fst ` set us \<subseteq> key ` set (upsert dflt u rows)"
    using rest by (auto simp: keys_upsert)
  then have "list_all is_update (statements dflt us (upsert dflt u rows))"
    by (rule Cons.IH)
  with here show ?case by simp
qed


lemma find_item_catalogue: "catalogue w' = catalogue w \<Longrightarrow> find_item w' f = find_item w f"
  by (simp add: catalogue_def find_item_def)

lemma upserts_catalogue: "catalogue w' = catalogue w \<Longrightarrow> upserts w' entries = upserts w entries"
  using find_item_catalogue [of w' w] by (simp add: upserts_def)

lemma watched_catalogue: "catalogue w' = catalogue w \<Longrightarrow> watched w' = watched w"
  by (simp add: catalogue_def watched_def)

lemma column_defaults_catalogue: "catalogue w' = catalogue w \<Longrightarrow> column_defaults w' = column_defaults w"
  by (simp add: catalogue_def)

lemma make_data_dated: "dated kodiEntry \<Longrightarrow> make_data n kodiEntry = make_data [] kodiEntry"
  by (simp add: dated_def make_data_def or_else_def split: option.splits)

lemma upserts_Nil: "upserts w [] = []"
  by (simp add: upserts_def)

lemma upserts_Cons: "upserts w (kodiEntry # entries) = upserts w [kodiEntry] @ upserts w entries"
  by (simp add: upserts_def)

lemma upserts_unmatched: "find_item w (strFilename kodiEntry) = None \<Longrightarrow> upserts w [kodiEntry] = []"
  by (simp add: upserts_def)

lemma upserts_matched:
  "find_item w (strFilename kodiEntry) = Some jellyItem \<Longrightarrow>
   upserts w [kodiEntry] = [(UserDataKey jellyItem, make_data [] kodiEntry)]"
  by (simp add: upserts_def)

lemma statements_append:
  "statements dflt (us @ vs) rows =
   statements dflt us rows @ statements dflt vs (fold (upsert dflt) us rows)"
  by (induction us arbitrary: rows) simp_all

lemma loop_body_replay:
  assumes "\<forall>op. \<not> fails e op"
    and "find_item w (strFilename kodiEntry) \<noteq> None \<longrightarrow> dated kodiEntry"
  shows "\<exists>w'. loop_body e i kodiEntry w = Inr w' \<and> catalogue w' = catalogue w \<and>
     UserDatas w' = fold (upsert (column_defaults w)) (upserts w [kodiEntry]) (UserDatas w) \<and>
     issued w' = issued w @ statements (column_defaults w) (upserts w [kodiEntry]) (UserDatas w)"
proof (cases "find_item w (strFilename kodiEntry)")
  case None
  have "loop_body e i kodiEntry w = Inr w"
    using None assms(1) by (simp add: loop_body_def)
  then show ?thesis
    by (intro exI [of _ w]) (simp add: upserts_unmatched [OF None])
next
  case (Some jellyItem)
  define k where "k = UserDataKey jellyItem"
  define d where "d = make_data [] kodiEntry"
  have "dated kodiEntry" using Some assms(2) by simp
  then have dd: "make_data (now e i) kodiEntry = d"
    unfolding d_def by (rule make_data_dated)
  have ups: "upserts w [kodiEntry] = [(k, d)]"
    by (simp add: upserts_matched [OF Some] k_def d_def)
  have nf: "\<not> fails e (FindItem i)" "\<not> fails e (FindExisting i)" "\<not> fails e (WriteUserData i)"
    using assms(1) by simp_all
  note body = loop_body_matched [OF Some nf, unfolded dd, folded k_def]
  show ?thesis
  proof (cases "\<exists>row \<in> set (UserDatas w). key row = k")
    case True
    then obtain r where "r \<in> set (UserDatas w)" "key r = k" by blast
    then have mem: "k \<in> key ` set (UserDatas w)" by (rule_tac image_eqI [of _ _ r]) simp_all
    define w' where "w' = w\<lparr>UserDatas := update_where_key k d (UserDatas w),
        issued := issued w @ [Update k d],
        console := console w @ [WatchUpdated (strFilename kodiEntry)]\<rparr>"
    have "loop_body e i kodiEntry w = Inr w'"
      using body True by (simp add: w'_def)
    moreover have "catalogue w' = catalogue w" by (simp add: w'_def catalogue_def)
    moreover have "UserDatas w' = fold (upsert (column_defaults w)) (upserts w [kodiEntry]) (UserDatas w)"
      using mem by (simp add: w'_def ups upsert_def)
    moreover have "issued w' = issued w @ statements (column_defaults w) (upserts w [kodiEntry]) (UserDatas w)"
      using mem by (simp add: w'_def ups)
    ultimately show ?thesis by (intro exI [of _ w'] conjI)
  next
    case False
    then have mem: "k \<notin> key ` set (UserDatas w)" by auto
    define w' where "w' = w\<lparr>UserDatas := insert_row k d (column_defaults w) (UserDatas w),
        issued := issued w @ [Insert k d],
        console := console w @ [WatchInserted (strFilename kodiEntry)]\<rparr>"
    have "loop_body e i kodiEntry w = Inr w'"
      using body False by (simp add: w'_def)
    moreover have "catalogue w' = catalogue w" by (simp add: w'_def catalogue_def)
    moreover have "UserDatas w' = fold (upsert (column_defaults w)) (upserts w [kodiEntry]) (UserDatas w)"
      using mem by (simp add: w'_def ups upsert_def)
    moreover have "issued w' = issued w @ statements (column_defaults w) (upserts w [kodiEntry]) (UserDatas w)"
      using mem by (simp add: w'_def ups)
    ultimately show ?thesis by (intro exI [of _ w'] conjI)
  qed
qed

lemma for_loop_replay:
  assumes "\<forall>op. \<not> fails e op"
    and "\<forall>kodiEntry \<in> set entries. find_item w (strFilename kodiEntry) \<noteq> None \<longrightarrow> dated kodiEntry"
  shows "\<exists>w'. for_loop e i entries w = (None, w') \<and> catalogue w' = catalogue w \<and>
     UserDatas w' = fold (upsert (column_defaults w)) (upserts w entries) (UserDatas w) \<and>
     issued w' = issued w @ statements (column_defaults w) (upserts w entries) (UserDatas w)"
  using assms(2)
proof (induction entries arbitrary: i w)
  case Nil
  show ?case by (simp add: upserts_Nil)
next
  case (Cons kodiEntry entries)
  from Cons.prems have first: "find_item w (strFilename kodiEntry) \<noteq> None \<longrightarrow> dated kodiEntry"
    by simp
  from loop_body_replay [OF assms(1) first, of i] obtain w1 where
    body: "loop_body e i kodiEntry w = Inr w1"
    and cat1: "catalogue w1 = catalogue w"
    and rows1: "UserDatas w1 = fold (upsert (column_defaults w)) (upserts w [kodiEntry]) (UserDatas w)"
    and iss1: "issued w1 = issued w @ statements (column_defaults w) (upserts w [kodiEntry]) (UserDatas w)"
    by (elim exE conjE)
  have "\<forall>kodiEntry \<in> set entries. find_item w1 (strFilename kodiEntry) \<noteq> None \<longrightarrow> dated kodiEntry"
    using Cons.prems by (simp add: find_item_catalogue [OF cat1])
  from Cons.IH [OF this, of "Suc i"] obtain w' where
    loop: "for_loop e (Suc i) entries w1 = (None, w')"
    and cat: "catalogue w' = catalogue w1"
    and rows: "UserDatas w' = fold (upsert (column_defaults w1)) (upserts w1 entries) (UserDatas w1)"
    and iss: "issued w' = issued w1 @ statements (column_defaults w1) (upserts w1 entries) (UserDatas w1)"
    by (elim exE conjE)
  have dflt: "column_defaults w1 = column_defaults w"
    using cat1 by (rule column_defaults_catalogue)
  have ups: "upserts w1 entries = upserts w entries"
    using cat1 by (rule upserts_catalogue)
  have split: "upserts w (kodiEntry # entries) = upserts w [kodiEntry] @ upserts w entries"
    by (rule upserts_Cons)
  have "for_loop e i (kodiEntry # entries) w = (None, w')"
    using body loop by simp
  moreover have "catalogue w' = catalogue w"
    using cat cat1 by simp
  moreover have "UserDatas w' =
      fold (upsert (column_defaults w)) (upserts w (kodiEntry # entries)) (UserDatas w)"
    unfolding split by (simp add: rows rows1 dflt ups)
  moreover have "issued w' =
      issued w @ statements (column_defaults w) (upserts w (kodiEntry # entries)) (UserDatas w)"
    unfolding split statements_append by (simp add: iss iss1 rows1 dflt ups)
  ultimately show ?case by (intro exI [of _ w'] conjI)
qed

lemma log_fields:
  "catalogue (log line w) = catalogue w" "UserDatas (log line w) = UserDatas w"
  "issued (log line w) = issued w"
  by (simp_all add: log_def catalogue_def)

lemma launch_fields:
  "catalogue (launch w) = catalogue w" "UserDatas (launch w) = UserDatas w"
  "issued (launch w) = []"
  by (simp_all add: launch_def catalogue_def)

lemma run_replay:
  assumes "\<forall>op. \<not> fails e op"
    and "\<forall>kodiEntry \<in> set (watched w). find_item w (strFilename kodiEntry) \<noteq> None \<longrightarrow> dated kodiEntry"
  shows "catalogue (run e w) = catalogue w"
    and "UserDatas (run e w) = fold (upsert (column_defaults w)) (upserts w (watched w)) (UserDatas w)"
    and "issued (run e w) = statements (column_defaults w) (upserts w (watched w)) (UserDatas w)"
proof -
  define w1 where "w1 = log Connecting (launch w)"
  define w2 where "w2 = log (Found (length (watched w1))) w1"
  have cat2: "catalogue w2 = catalogue w"
    by (simp add: w2_def w1_def log_fields launch_fields)
  have rows2: "UserDatas w2 = UserDatas w" and iss2: "issued w2 = []"
    by (simp_all add: w2_def w1_def log_fields launch_fields)
  have cat1: "catalogue w1 = catalogue w"
    by (simp add: w1_def log_fields launch_fields)
  have wa: "watched w1 = watched w" using cat1 by (rule watched_catalogue)
  have "\<forall>kodiEntry \<in> set (watched w). find_item w2 (strFilename kodiEntry) \<noteq> None \<longrightarrow> dated kodiEntry"
    using assms(2) by (simp add: find_item_catalogue [OF cat2])
  from for_loop_replay [OF assms(1) this, of 0] obtain w3 where
    loop: "for_loop e 0 (watched w) w2 = (None, w3)"
    and cat3: "catalogue w3 = catalogue w2"
    and rows3: "UserDatas w3 = fold (upsert (column_defaults w2)) (upserts w2 (watched w)) (UserDatas w2)"
    and iss3: "issued w3 = issued w2 @ statements (column_defaults w2) (upserts w2 (watched w)) (UserDatas w2)"
    by (elim exE conjE)
  have w2': "w2 = log (Found (length (watched w))) w1"
    by (simp add: w2_def wa)
  have tb: "try_block e (launch w) = (None, log SyncComplete w3)"
    using assms(1) loop [unfolded w2']
    by (simp add: try_block_def Let_def w1_def [symmetric] wa)
  have run: "run e w = (log SyncComplete w3)\<lparr>kodiDb_open := False, jellyfinDb_open := False\<rparr>"
    by (simp add: run_def main_def tb)
  have dflt: "column_defaults w2 = column_defaults w"
    using cat2 by (rule column_defaults_catalogue)
  have ups: "upserts w2 (watched w) = upserts w (watched w)"
    using cat2 by (rule upserts_catalogue)
  show "catalogue (run e w) = catalogue w"
    using cat3 cat2 log_fields(1) [of SyncComplete w3] by (simp add: run catalogue_def)
  show "UserDatas (run e w) = fold (upsert (column_defaults w)) (upserts w (watched w)) (UserDatas w)"
    by (simp add: run log_fields rows3 rows2 dflt ups)
  show "issued (run e w) = statements (column_defaults w) (upserts w (watched w)) (UserDatas w)"
    by (simp add: run log_fields iss3 iss2 rows2 dflt ups)
qed


text \<open>
  Claim C2, as amended. When no store operation fails in either run and every watched
  entry that matches an item carries a non-empty last-played value, a second run on the
  unchanged source leaves \<open>UserDatas\<close> exactly as the first run left it, issues updates
  only, and issues them with the keys and the \<open>data\<close> of the first run's statements.
  Without the condition on the dates the claim fails: the fallback date is the clock's
  reading, and the second run reads a later clock, as the undated library shows below.
\<close>

theorem second_run_settled:
  assumes "\<forall>op. \<not> fails e1 op" and "\<forall>op. \<not> fails e2 op"
    and "\<forall>kodiEntry \<in> set (watched w).
           find_item w (strFilename kodiEntry) \<noteq> None \<longrightarrow> dated kodiEntry"
  shows "files (run e1 w) = files w \<and>
     UserDatas (run e2 (run e1 w)) = UserDatas (run e1 w) \<and>
     list_all is_update (issued (run e2 (run e1 w))) \<and>
     map statement_key (issued (run e2 (run e1 w))) = map statement_key (issued (run e1 w)) \<and>
     map statement_data (issued (run e2 (run e1 w))) = map statement_data (issued (run e1 w))"
proof -
  define us where "us = upserts w (watched w)"
  define dflt where "dflt = column_defaults w"
  define w1 where "w1 = run e1 w"
  note first = run_replay [OF assms(1) assms(3), folded us_def dflt_def w1_def]
  have cat: "catalogue w1 = catalogue w" by (rule first(1))
  have wa: "watched w1 = watched w" using cat by (rule watched_catalogue)
  have "\<forall>kodiEntry \<in> set (watched w1).
           find_item w1 (strFilename kodiEntry) \<noteq> None \<longrightarrow> dated kodiEntry"
    using assms(3) by (simp add: wa find_item_catalogue [OF cat])
  note second = run_replay [OF assms(2) this]
  have us1: "upserts w1 (watched w1) = us"
    unfolding wa us_def using cat by (rule upserts_catalogue)
  have dflt1: "column_defaults w1 = dflt"
    unfolding dflt_def using cat by (rule column_defaults_catalogue)
  have rows2: "UserDatas (run e2 w1) = fold (upsert dflt) us (UserDatas w1)"
    using second(2) by (simp only: us1 dflt1)
  have iss2: "issued (run e2 w1) = statements dflt us (UserDatas w1)"
    using second(3) by (simp only: us1 dflt1)
  have keys: "fst ` set us \<subseteq> key ` set (UserDatas w1)"
    by (simp add: first(2) keys_fold_upsert)
  have "files w1 = files w" using cat by (simp add: catalogue_def)
  moreover have "UserDatas (run e2 w1) = UserDatas w1"
    by (simp only: rows2 first(2) fold_upsert_twice)
  moreover have "list_all is_update (issued (run e2 w1))"
    unfolding iss2 using keys by (rule statements_present)
  moreover have "map statement_key (issued (run e2 w1)) = map statement_key (issued w1)"
    by (simp only: iss2 first(3) statements_key)
  moreover have "map statement_data (issued (run e2 w1)) = map statement_data (issued w1)"
    by (simp only: iss2 first(3) statements_data)
  ultimately show ?thesis unfolding w1_def by (intro conjI)
qed

lemma first_undated: "map lastPlayedDate (UserDatas (run example_env undated_world)) = [''2024-05-05 12:00:00.000Z'']"
  by code_simp

lemma second_undated:
  "map lastPlayedDate (UserDatas (run later_env (run example_env undated_world))) = [''2024-05-05 12:05:00.000Z'']"
  by code_simp

theorem second_run_differs:
  "files (run example_env undated_world) = files undated_world \<and>
   UserDatas (run later_env (run example_env undated_world)) \<noteq> UserDatas (run example_env undated_world)"
proof -
  have "files (run example_env undated_world) = files undated_world"
    by code_simp
  moreover have "UserDatas (run later_env (run example_env undated_world)) \<noteq> UserDatas (run example_env undated_world)"
  proof
    assume "UserDatas (run later_env (run example_env undated_world)) = UserDatas (run example_env undated_world)"
    then have "map lastPlayedDate (UserDatas (run later_env (run example_env undated_world))) =
       map lastPlayedDate (UserDatas (run example_env undated_world))" by (rule arg_cong)
    then show False by (simp only: first_undated second_undated) simp
  qed
  ultimately show ?thesis by (rule conjI)
qed

theorem second_run_settled_witness:
  "list_all dated (watched example_world) \<and>
   UserDatas (run later_env (run example_env example_world)) = UserDatas (run example_env example_world) \<and>
   list_all is_update (issued (run later_env (run example_env example_world))) \<and>
   length (issued (run later_env (run example_env example_world))) = 1"
proof -
  have d: "list_all dated (watched example_world)" by code_simp
  then have hyp: "\<forall>kodiEntry \<in> set (watched example_world).
      find_item example_world (strFilename kodiEntry) \<noteq> None \<longrightarrow> dated kodiEntry"
    by (simp add: list_all_iff)
  have nf1: "\<forall>op. \<not> fails example_env op" by (simp add: example_env_def)
  have nf2: "\<forall>op. \<not> fails later_env op" by (simp add: later_env_def)
  have len: "length (issued (run later_env (run example_env example_world))) = 1"
    by code_simp
  show ?thesis
    using second_run_settled [OF nf1 nf2 hyp] d len by (intro conjI) simp_all
qed


subsection \<open>Unique keys and failing stores\<close>

lemma distinct_update_where_key:
  "distinct (map key rows) \<Longrightarrow> distinct (map key (update_where_key k d rows))"
  by (simp only: map_key_update_where_key)

lemma distinct_insert_row:
  "distinct (map key rows) \<Longrightarrow> k \<notin> key ` set rows \<Longrightarrow>
   distinct (map key (insert_row k d dflt rows))"
  by (simp add: insert_row_def new_row_def)

lemma reconcile_distinct:
  assumes "distinct (map key (UserDatas w))" and "reconcile e i kodiEntry jellyItem w = Inr w'"
  shows "distinct (map key (UserDatas w'))"
proof (cases "find_existing w (UserDataKey jellyItem)")
  case None
  then have absent: "UserDataKey jellyItem \<notin> key ` set (UserDatas w)"
    by (auto simp: find_existing_None)
  from assms(2) None have "UserDatas w' =
      insert_row (UserDataKey jellyItem) (make_data (now e i) kodiEntry) (column_defaults w) (UserDatas w)"
    by (auto simp: reconcile_def Let_def split: if_splits)
  with assms(1) absent show ?thesis by (simp add: distinct_insert_row)
next
  case (Some row)
  with assms(2) have "UserDatas w' =
      update_where_key (UserDataKey jellyItem) (make_data (now e i) kodiEntry) (UserDatas w)"
    by (auto simp: reconcile_def Let_def split: if_splits)
  with assms(1) show ?thesis by (simp add: distinct_update_where_key)
qed

lemma loop_body_distinct:
  assumes "distinct (map key (UserDatas w))" and "loop_body e i kodiEntry w = Inr w'"
  shows "distinct (map key (UserDatas w'))"
proof (cases "find_item w (strFilename kodiEntry)")
  case None
  with assms(2) have "w' = w" by (simp add: loop_body_def split: if_splits)
  with assms(1) show ?thesis by simp
next
  case (Some jellyItem)
  with assms(2) have "reconcile e i kodiEntry jellyItem w = Inr w'"
    by (simp add: loop_body_def split: if_splits)
  with assms(1) show ?thesis by (rule reconcile_distinct)
qed

lemma for_loop_distinct:
  "distinct (map key (UserDatas w)) \<Longrightarrow> distinct (map key (UserDatas (snd (for_loop e i entries w))))"
proof (induction entries arbitrary: i w)
  case Nil
  then show ?case by simp
next
  case (Cons kodiEntry entries)
  show ?case
  proof (cases "loop_body e i kodiEntry w")
    case (Inl err)
    with Cons.prems show ?thesis by simp
  next
    case (Inr w')
    with Cons.prems have "distinct (map key (UserDatas w'))" by (rule loop_body_distinct)
    then have "distinct (map key (UserDatas (snd (for_loop e (Suc i) entries w'))))"
      by (rule Cons.IH)
    with Inr show ?thesis by simp
  qed
qed

lemma UserDatas_log: "UserDatas (log line w) = UserDatas w"
  by (simp add: log_def)

lemma try_block_distinct:
  assumes "distinct (map key (UserDatas w))"
  shows "distinct (map key (UserDatas (snd (try_block e w))))"
proof (cases "fails e FetchWatched")
  case True
  with assms show ?thesis by (simp add: try_block_def Let_def UserDatas_log)
next
  case False
  define w2 where "w2 = log (Found (length (watched (log Connecting w)))) (log Connecting w)"
  have "distinct (map key (UserDatas w2))"
    using assms by (simp add: w2_def UserDatas_log)
  then have d: "distinct (map key (UserDatas (snd (for_loop e 0 (watched (log Connecting w)) w2))))"
    by (rule for_loop_distinct)
  obtain r w3 where loop: "for_loop e 0 (watched (log Connecting w)) w2 = (r, w3)"
    by (cases "for_loop e 0 (watched (log Connecting w)) w2")
  with d have d3: "distinct (map key (UserDatas w3))" by simp
  show ?thesis
  proof (cases r)
    case None
    with False loop d3 show ?thesis
      by (simp add: try_block_def Let_def w2_def [symmetric] UserDatas_log)
  next
    case (Some err)
    with False loop d3 show ?thesis
      by (simp add: try_block_def Let_def w2_def [symmetric])
  qed
qed

lemma UserDatas_main:
  "UserDatas (main e w) = UserDatas (snd (try_block e w))"
proof -
  obtain r w1 where tb: "try_block e w = (r, w1)" by (cases "try_block e w")
  then show ?thesis
    by (cases r) (simp_all add: main_def UserDatas_log)
qed

text \<open>
  Claim C8. If no two rows of \<open>UserDatas\<close> share a key before \<open>main\<close> runs, no two rows
  share a key after it, whatever the clock reads and whichever store operations fail: a
  row is inserted only when no row carries the key, also when several watched files match
  the same item in one run.
\<close>

theorem keys_stay_unique:
  "distinct (map key (UserDatas w)) \<Longrightarrow> distinct (map key (UserDatas (main e w)))"
  by (simp only: UserDatas_main try_block_distinct)

theorem keys_stay_unique_witness:
  "distinct (map key (UserDatas replayed_world)) \<and>
   length (watched replayed_world) = 2 \<and>
   map key (UserDatas (main example_env replayed_world)) = [''abc123''] \<and>
   distinct (map key (UserDatas (main example_env replayed_world)))"
proof -
  have d: "distinct (map key (UserDatas replayed_world))" by code_simp
  have l: "length (watched replayed_world) = 2" by code_simp
  have m: "map key (UserDatas (main example_env replayed_world)) = [''abc123'']" by code_simp
  from d l m keys_stay_unique [OF d, of example_env] show ?thesis by (intro conjI)
qed


lemma loop_body_fails:
  assumes "fails e (FindItem i) \<or>
     (\<exists>jellyItem. find_item w (strFilename kodiEntry) = Some jellyItem \<and>
        (fails e (FindExisting i) \<or> fails e (WriteUserData i)))"
  shows "\<exists>err. loop_body e i kodiEntry w = Inl err"
proof (cases "fails e (FindItem i)")
  case True
  then show ?thesis by (simp add: loop_body_def)
next
  case False
  with assms obtain jellyItem where m: "find_item w (strFilename kodiEntry) = Some jellyItem"
    and f: "fails e (FindExisting i) \<or> fails e (WriteUserData i)"
    by blast
  show ?thesis
  proof (cases "fails e (FindExisting i)")
    case True
    with False m show ?thesis by (simp add: loop_body_def reconcile_def)
  next
    case nf: False
    with f have "fails e (WriteUserData i)" by simp
    with False nf m show ?thesis by (simp add: loop_body_def reconcile_def Let_def)
  qed
qed

lemma for_loop_stops:
  assumes "for_loop e i before w = (None, w1)"
    and "loop_body e (i + length before) kodiEntry w1 = Inl err"
  shows "for_loop e i (before @ kodiEntry # rest) w = (Some err, w1)"
  using assms
proof (induction before arbitrary: i w)
  case Nil
  then show ?case by simp
next
  case (Cons x xs)
  show ?case
  proof (cases "loop_body e i x w")
    case (Inl err')
    with Cons.prems(1) show ?thesis by simp
  next
    case (Inr w')
    with Cons.prems(1) have "for_loop e (Suc i) xs w' = (None, w1)" by simp
    moreover from Cons.prems(2) have "loop_body e (Suc i + length xs) kodiEntry w1 = Inl err"
      by simp
    ultimately have "for_loop e (Suc i) (xs @ kodiEntry # rest) w' = (Some err, w1)"
      by (rule Cons.IH)
    with Inr show ?thesis by simp
  qed
qed

lemma watched_log: "watched (log line w) = watched w"
  by (simp add: watched_def log_def)

lemma main_closes: "\<not> kodiDb_open (main e w) \<and> \<not> jellyfinDb_open (main e w)"
proof -
  obtain r w1 where "try_block e w = (r, w1)" by (cases "try_block e w")
  then show ?thesis by (simp add: main_def)
qed

lemma main_source_fails:
  "fails e FetchWatched \<Longrightarrow>
   main e w = (log (ErrorLine (StoreUnavailable FetchWatched)) (log Connecting w))
                \<lparr>kodiDb_open := False, jellyfinDb_open := False\<rparr>"
  by (simp add: main_def try_block_def)

lemma main_loop_fails:
  assumes "\<not> fails e FetchWatched"
    and "for_loop e 0 (watched w) (log (Found (length (watched w))) (log Connecting w)) = (Some err, w1)"
  shows "main e w = (log (ErrorLine err) w1)\<lparr>kodiDb_open := False, jellyfinDb_open := False\<rparr>"
  using assms by (simp add: main_def try_block_def Let_def watched_log)

text \<open>
  Claim C9. Both handles are destroyed when \<open>main\<close> returns, on every path. When the
  source query fails nothing but the error is printed. When the entries before some entry
  went through and a store operation of that entry fails (the item query, or for a matched
  entry the lookup of the row or the write), \<open>main\<close> ends in the world those earlier
  entries left, with the error printed and both handles destroyed: the writes made so far
  stay, the failing entry and the entries behind it write nothing.
\<close>

theorem failure_stops_run:
  "\<not> kodiDb_open (main e w) \<and> \<not> jellyfinDb_open (main e w) \<and>
   (fails e FetchWatched \<longrightarrow>
      main e w = (log (ErrorLine (StoreUnavailable FetchWatched)) (log Connecting w))
                   \<lparr>kodiDb_open := False, jellyfinDb_open := False\<rparr>) \<and>
   (\<forall>before kodiEntry rest w1.
      \<not> fails e FetchWatched \<and> watched w = before @ kodiEntry # rest \<and>
      for_loop e 0 before (log (Found (length (watched w))) (log Connecting w)) = (None, w1) \<and>
      (fails e (FindItem (length before)) \<or>
       (\<exists>jellyItem. find_item w1 (strFilename kodiEntry) = Some jellyItem \<and>
          (fails e (FindExisting (length before)) \<or> fails e (WriteUserData (length before)))))
      \<longrightarrow> (\<exists>err. main e w = (log (ErrorLine err) w1)\<lparr>kodiDb_open := False, jellyfinDb_open := False\<rparr>))"
proof (intro conjI allI impI)
  show "\<not> kodiDb_open (main e w)" using main_closes [of e w] by simp
  show "\<not> jellyfinDb_open (main e w)" using main_closes [of e w] by simp
next
  assume "fails e FetchWatched"
  then show "main e w = (log (ErrorLine (StoreUnavailable FetchWatched)) (log Connecting w))
                   \<lparr>kodiDb_open := False, jellyfinDb_open := False\<rparr>"
    by (rule main_source_fails)
next
  fix before kodiEntry rest w1
  assume a: "\<not> fails e FetchWatched \<and> watched w = before @ kodiEntry # rest \<and>
      for_loop e 0 before (log (Found (length (watched w))) (log Connecting w)) = (None, w1) \<and>
      (fails e (FindItem (length before)) \<or>
       (\<exists>jellyItem. find_item w1 (strFilename kodiEntry) = Some jellyItem \<and>
          (fails e (FindExisting (length before)) \<or> fails e (WriteUserData (length before)))))"
  from a have src: "\<not> fails e FetchWatched" by (elim conjE)
  from a have split: "watched w = before @ kodiEntry # rest" by (elim conjE)
  from a have pre:
    "for_loop e 0 before (log (Found (length (watched w))) (log Connecting w)) = (None, w1)"
    by (elim conjE)
  from a have bad: "fails e (FindItem (length before)) \<or>
       (\<exists>jellyItem. find_item w1 (strFilename kodiEntry) = Some jellyItem \<and>
          (fails e (FindExisting (length before)) \<or> fails e (WriteUserData (length before))))"
    by (elim conjE)
  from loop_body_fails [OF bad] obtain err where
    "loop_body e (length before) kodiEntry w1 = Inl err" ..
  then have "loop_body e (0 + length before) kodiEntry w1 = Inl err" by simp
  with pre have "for_loop e 0 (before @ kodiEntry # rest)
      (log (Found (length (watched w))) (log Connecting w)) = (Some err, w1)"
    by (rule for_loop_stops)
  then have "for_loop e 0 (watched w) (log (Found (length (watched w))) (log Connecting w)) = (Some err, w1)"
    by (simp only: split)
  with src have "main e w = (log (ErrorLine err) w1)\<lparr>kodiDb_open := False, jellyfinDb_open := False\<rparr>"
    by (rule main_loop_fails)
  then show "\<exists>err. main e w = (log (ErrorLine err) w1)\<lparr>kodiDb_open := False, jellyfinDb_open := False\<rparr>" ..
qed


lemma reconcile_catalogue:
  "reconcile e i kodiEntry jellyItem w = Inr w' \<Longrightarrow> catalogue w' = catalogue w"
  by (auto simp: reconcile_def Let_def catalogue_def split: if_splits)

lemma loop_body_catalogue:
  assumes "loop_body e i kodiEntry w = Inr w'"
  shows "catalogue w' = catalogue w"
proof (cases "find_item w (strFilename kodiEntry)")
  case None
  with assms have "w' = w" by (simp add: loop_body_def split: if_splits)
  then show ?thesis by simp
next
  case (Some jellyItem)
  with assms have "reconcile e i kodiEntry jellyItem w = Inr w'"
    by (simp add: loop_body_def split: if_splits)
  then show ?thesis by (rule reconcile_catalogue)
qed

lemma for_loop_catalogue: "catalogue (snd (for_loop e i entries w)) = catalogue w"
proof (induction entries arbitrary: i w)
  case Nil
  show ?case by simp
next
  case (Cons kodiEntry entries)
  show ?case
  proof (cases "loop_body e i kodiEntry w")
    case (Inl err)
    then show ?thesis by simp
  next
    case (Inr w')
    then have "catalogue w' = catalogue w" by (rule loop_body_catalogue)
    with Inr Cons.IH [of "Suc i" w'] show ?thesis by simp
  qed
qed

theorem failure_stops_run_witness:
  "fails failing_env (WriteUserData 1) \<and>
   watched interrupted_world = [example_entry] @ replayed_entry # [example_entry] \<and>
   (\<exists>err. main failing_env interrupted_world =
      (log (ErrorLine err)
        (snd (for_loop failing_env 0 [example_entry]
               (log (Found (length (watched interrupted_world))) (log Connecting interrupted_world)))))
        \<lparr>kodiDb_open := False, jellyfinDb_open := False\<rparr>) \<and>
   map playCount (UserDatas (main failing_env interrupted_world)) = [3] \<and>
   console (main failing_env interrupted_world) =
     [Connecting, Found 3, WatchInserted ''Show/S01E01.mkv'',
      ErrorLine (StoreUnavailable (WriteUserData 1))] \<and>
   \<not> kodiDb_open (main failing_env interrupted_world) \<and>
   \<not> jellyfinDb_open (main failing_env interrupted_world)"
proof -
  define start where
    "start = log (Found (length (watched interrupted_world))) (log Connecting interrupted_world)"
  define w1 where "w1 = snd (for_loop failing_env 0 [example_entry] start)"
  have bad: "fails failing_env (WriteUserData 1)" by (simp add: failing_env_def)
  have bad': "fails failing_env (WriteUserData (length [example_entry]))"
    by (simp add: failing_env_def)
  have src: "\<not> fails failing_env FetchWatched" by (simp add: failing_env_def)
  have split: "watched interrupted_world = [example_entry] @ replayed_entry # [example_entry]"
    by (simp add: watched_def interrupted_world_def example_world_def example_entry_def
        replayed_entry_def)
  have "fst (for_loop failing_env 0 [example_entry] start) = None"
    unfolding start_def by code_simp
  then have pre: "for_loop failing_env 0 [example_entry] start = (None, w1)"
    unfolding w1_def by (cases "for_loop failing_env 0 [example_entry] start") simp
  have "catalogue w1 = catalogue interrupted_world"
    unfolding w1_def start_def by (simp only: for_loop_catalogue log_fields)
  then have "find_item w1 (strFilename replayed_entry) =
      find_item interrupted_world (strFilename replayed_entry)"
    by (rule find_item_catalogue)
  also have "\<dots> = Some example_item" by code_simp
  finally have found: "find_item w1 (strFilename replayed_entry) = Some example_item" .
  have hyp: "\<not> fails failing_env FetchWatched \<and>
      watched interrupted_world = [example_entry] @ replayed_entry # [example_entry] \<and>
      for_loop failing_env 0 [example_entry] start = (None, w1) \<and>
      (fails failing_env (FindItem (length [example_entry])) \<or>
       (\<exists>jellyItem. find_item w1 (strFilename replayed_entry) = Some jellyItem \<and>
          (fails failing_env (FindExisting (length [example_entry])) \<or>
           fails failing_env (WriteUserData (length [example_entry])))))"
    by (intro conjI disjI2 exI [of _ example_item]) (rule src split pre found bad')+
  note inst = failure_stops_run [of failing_env interrupted_world]
  have closed: "\<not> kodiDb_open (main failing_env interrupted_world)"
      "\<not> jellyfinDb_open (main failing_env interrupted_world)"
    by (rule inst [THEN conjunct1], rule inst [THEN conjunct2, THEN conjunct1])
  note every = inst [THEN conjunct2, THEN conjunct2, THEN conjunct2, rule_format,
      of "[example_entry]" replayed_entry "[example_entry]" w1, folded start_def]
  have "\<exists>err. main failing_env interrupted_world =
            (log (ErrorLine err) w1)\<lparr>kodiDb_open := False, jellyfinDb_open := False\<rparr>"
    by (rule every [OF hyp])
  then have stop: "\<exists>err. main failing_env interrupted_world =
      (log (ErrorLine err)
        (snd (for_loop failing_env 0 [example_entry]
               (log (Found (length (watched interrupted_world))) (log Connecting interrupted_world)))))
        \<lparr>kodiDb_open := False, jellyfinDb_open := False\<rparr>"
    unfolding w1_def start_def .
  have rows: "map playCount (UserDatas (main failing_env interrupted_world)) = [3]"
    by code_simp
  have lines: "console (main failing_env interrupted_world) =
     [Connecting, Found 3, WatchInserted ''Show/S01E01.mkv'',
      ErrorLine (StoreUnavailable (WriteUserData 1))]"
    by code_simp
  show ?thesis
    by (intro conjI) (rule bad split stop rows lines closed)+
qed


subsection \<open>The item query and substrings\<close>

lemma like_percent: "like sensitive ''%'' s"
  by (simp add: list_ex_iff)

lemma collate_Cons: "collate sensitive (c # s) = hd (collate sensitive [c]) # collate sensitive s"
  by (simp add: collate_def)

lemma like_char_collate:
  "like_char sensitive p c \<longleftrightarrow> collate sensitive [p] = collate sensitive [c]"
  by (simp add: like_char_def collate_def)

lemma like_literal:
  "wildcard_free f \<Longrightarrow>
   like sensitive (f @ ''%'') s \<longleftrightarrow> prefix (collate sensitive f) (collate sensitive s)"
proof (induction f arbitrary: s)
  case Nil
  show ?case using like_percent [of sensitive s] by (simp add: collate_def)
next
  case (Cons c f)
  from Cons.prems have c: "c \<noteq> CHR ''%''" "c \<noteq> CHR ''_''" and f: "wildcard_free f"
    by (auto simp: wildcard_free_def)
  show ?case
  proof (cases s)
    case Nil
    then show ?thesis using c by (simp add: collate_def)
  next
    case (Cons x xs)
    have "like sensitive ((c # f) @ ''%'') (x # xs) \<longleftrightarrow>
        like_char sensitive c x \<and> like sensitive (f @ ''%'') xs"
      using c by simp
    also have "\<dots> \<longleftrightarrow> like_char sensitive c x \<and> prefix (collate sensitive f) (collate sensitive xs)"
      using Cons.IH [OF f, of xs] by simp
    also have "\<dots> \<longleftrightarrow> prefix (collate sensitive (c # f)) (collate sensitive (x # xs))"
      by (simp add: like_char_def collate_def)
    finally show ?thesis using Cons by simp
  qed
qed

lemma suffix_collate:
  "(\<exists>t. suffix t s \<and> prefix g (collate sensitive t)) \<longleftrightarrow> sublist g (collate sensitive s)"
proof
  assume "\<exists>t. suffix t s \<and> prefix g (collate sensitive t)"
  then obtain t where t: "suffix t s" "prefix g (collate sensitive t)" by blast
  from t(1) obtain u where "s = u @ t" by (auto simp: suffix_def)
  then have "collate sensitive s = collate sensitive u @ collate sensitive t"
    by (simp add: collate_def)
  then have "suffix (collate sensitive t) (collate sensitive s)" by (simp add: suffix_def)
  with t(2) show "sublist g (collate sensitive s)"
    by (auto simp: sublist_altdef')
next
  assume "sublist g (collate sensitive s)"
  then obtain a b where ab: "collate sensitive s = a @ g @ b" by (auto simp: sublist_def)
  define t where "t = drop (length a) s"
  have len: "length (collate sensitive s) = length s" by (simp add: collate_def)
  have "collate sensitive t = drop (length a) (collate sensitive s)"
    by (simp add: t_def collate_def drop_map)
  then have "collate sensitive t = g @ b" by (simp add: ab)
  then have "prefix g (collate sensitive t)" by simp
  moreover have "suffix t s" by (simp add: t_def suffix_drop)
  ultimately show "\<exists>t. suffix t s \<and> prefix g (collate sensitive t)" by blast
qed

lemma like_contains:
  assumes "wildcard_free f"
  shows "like sensitive (''%'' @ f @ ''%'') s \<longleftrightarrow> sublist (collate sensitive f) (collate sensitive s)"
proof -
  have "like sensitive (''%'' @ f @ ''%'') s \<longleftrightarrow> (\<exists>t. suffix t s \<and> like sensitive (f @ ''%'') t)"
    by (auto simp: list_ex_iff)
  also have "\<dots> \<longleftrightarrow> (\<exists>t. suffix t s \<and> prefix (collate sensitive f) (collate sensitive t))"
    by (simp add: like_literal [OF assms])
  also have "\<dots> \<longleftrightarrow> sublist (collate sensitive f) (collate sensitive s)"
    by (rule suffix_collate)
  finally show ?thesis .
qed

lemma find_item_contains:
  assumes "wildcard_free f"
  shows "find_item w f =
     find (\<lambda>item. sublist (collate (case_sensitive_like w) f) (collate (case_sensitive_like w) (Path item)))
       (TypedBaseItems w)"
  by (simp only: find_item_def like_contains [OF assms])

text \<open>
  Claim C3. The claim reads: the matcher returns the first item whose path contains the
  file name as a substring, and nothing when no path contains it. The query compares with
  \<open>LIKE\<close> and the file name goes into the pattern unescaped, so an underscore in the name
  stands for any character. On the library with the underscore the matcher returns the
  first item, whose path does not contain the name, although the second item's path does;
  it returns that item also when it is the only one; and the run writes the row of the
  wrong item. For names without a wildcard the query is the containment the claim
  describes (\<open>find_item_contains\<close>).
\<close>

theorem underscore_matches_any_character:
  "find_item wildcard_world (strFilename wildcard_entry) = Some other_item \<and>
   \<not> sublist (strFilename wildcard_entry) (Path other_item) \<and>
   sublist (strFilename wildcard_entry) (Path wanted_item) \<and>
   find_item (wildcard_world\<lparr>TypedBaseItems := [other_item]\<rparr>) (strFilename wildcard_entry) =
     Some other_item \<and>
   map key (UserDatas (run example_env wildcard_world)) = [''other'']"
  by code_simp

text \<open>
  Claim C4. The claim reads: a watched file whose path no item's path contains causes no
  write and is skipped. In the library below the only item's path differs from the file
  name at the underscore, so no path contains the name; the run nevertheless inserts the
  row of that item and prints the insertion. The cause is the one of claim C3, the file
  name going into the pattern unescaped. When the item query itself returns nothing the
  iteration does skip and the loop goes on (\<open>loop_body_unmatched\<close>,
  \<open>loop_goes_on_after_unmatched\<close>).
\<close>

theorem wildcard_match_is_not_skipped:
  "map strFilename (watched lone_world) = [''Show_S01E01.mkv''] \<and>
   map Path (TypedBaseItems lone_world) = [''/mnt/media/Show.S01E01.mkv''] \<and>
   \<not> list_ex (\<lambda>item. sublist (strFilename wildcard_entry) (Path item)) (TypedBaseItems lone_world) \<and>
   UserDatas lone_world = [] \<and>
   map key (UserDatas (run example_env lone_world)) = [''other''] \<and>
   map statement_key (issued (run example_env lone_world)) = [''other''] \<and>
   console (run example_env lone_world) =
     [Connecting, Found 1, WatchInserted ''Show_S01E01.mkv'', SyncComplete]"
  by code_simp

end
